theory Spec2Isabelle
  imports Main "HOL-Library.Word" "HOL-Library.Finite_Map" "HOL-Library.Sublist"
begin

section \<open>Errors\<close>

text \<open>
  A Go \<^verbatim>\<open>error\<close> is a message together with an optional wrapped cause.
  \<^verbatim>\<open>errors.New(s)\<close> and \<^verbatim>\<open>fmt.Errorf\<close> without \<^verbatim>\<open>%w\<close> give an
  \<open>ErrorString\<close>; \<^verbatim>\<open>fmt.Errorf("prefix: %w", err)\<close> gives a \<open>WrapError\<close> whose
  text is the formatted prefix followed by the text of the cause and whose \<open>Unwrap\<close> is
  the cause.  A \<^verbatim>\<open>nil\<close> error is \<open>None\<close> of \<open>error option\<close>.
\<close>

datatype error = ErrorString string | WrapError string error

fun Error_text :: "error \<Rightarrow> string" where
  "Error_text (ErrorString s) = s"
| "Error_text (WrapError p e) = p @ Error_text e"

fun Unwrap :: "error \<Rightarrow> error option" where
  "Unwrap (ErrorString s) = None"
| "Unwrap (WrapError p e) = Some e"

text \<open>The two errors of package \<^verbatim>\<open>context\<close> that \<^verbatim>\<open>ctx.Err()\<close> can return.\<close>

definition Canceled :: error where
  "Canceled = ErrorString ''context canceled''"

definition DeadlineExceeded :: error where
  "DeadlineExceeded = ErrorString ''context deadline exceeded''"

text \<open>
  \<^verbatim>\<open>fmt.Errorf(text + "%w", err)\<close>: with a \<^verbatim>\<open>nil\<close> operand the verb prints
  \<^verbatim>\<open>%!w(<nil>)\<close> and the result wraps nothing.
\<close>

definition Errorf_w :: "string \<Rightarrow> error option \<Rightarrow> error" where
  "Errorf_w text err =
     (case err of
        None \<Rightarrow> ErrorString (text @ ''%!w(<nil>)'')
      | Some e \<Rightarrow> WrapError text e)"

text \<open>The verb \<^verbatim>\<open>%d\<close>: a Go \<^verbatim>\<open>int\<close> in decimal.\<close>

definition digit_char :: "nat \<Rightarrow> char" where
  "digit_char d = ''0123456789'' ! d"

function fmt_nat :: "nat \<Rightarrow> string" where
  "fmt_nat n = (if n < 10 then [digit_char n] else fmt_nat (n div 10) @ [digit_char (n mod 10)])"
  by pat_completeness auto
termination
  by (relation "measure id") auto

declare fmt_nat.simps [simp del]

definition fmt_d :: "int \<Rightarrow> string" where
  "fmt_d i = (if i < 0 then CHR ''-'' # fmt_nat (nat (- i)) else fmt_nat (nat i))"

section \<open>Constants of package events\<close>

text \<open>A \<^verbatim>\<open>time.Duration\<close> is an \<^verbatim>\<open>int64\<close> count of nanoseconds.\<close>

type_synonym duration = "64 word"

definition Second :: duration where
  "Second = 1000000000"

definition maxRetries :: int where
  "maxRetries = 3"

definition retryBaseDelay :: duration where
  "retryBaseDelay = Second"

definition shutdownTimeout :: duration where
  "shutdownTimeout = 30 * Second"

definition forwarderTopic :: string where
  "forwarderTopic = ''_forwarder_queue''"


section \<open>Contexts, messages and handlers\<close>

text \<open>
  Time is a clock of nanoseconds.  A \<^verbatim>\<open>context.Context\<close> is described by the
  instant at which its \<^verbatim>\<open>Done()\<close> channel is closed (\<open>None\<close>: never), by the
  error \<^verbatim>\<open>Err()\<close> reports from then on, and by the span context it carries.
\<close>

record span_context =
  TraceID :: string
  SpanID :: string

record ctx =
  done_at :: "nat option"
  ctx_err :: error
  span :: "span_context option"

text \<open>
  A Watermill \<^verbatim>\<open>message.Message\<close>.  \<open>Metadata\<close> is a Go map, which may be
  \<^verbatim>\<open>nil\<close> (\<open>None\<close>); \<^verbatim>\<open>message.NewMessage\<close> allocates it.
\<close>

record message =
  UUID :: string
  Metadata :: "(string, string) fmap option"
  Payload :: string

definition NewMessage :: "string \<Rightarrow> string \<Rightarrow> message" where
  "NewMessage uuid payload = \<lparr>UUID = uuid, Metadata = Some fmempty, Payload = payload\<rparr>"

text \<open>
  A handler \<^verbatim>\<open>func(context.Context, *message.Message) error\<close> is a closure: besides
  its two arguments it sees the clock and the variables it captured (\<open>'h\<close>), and it
  returns its error, the time the call took and the new captured state.  Handlers are
  taken to return and to leave the message as it is.
\<close>

type_synonym 'h handler = "ctx \<Rightarrow> message \<Rightarrow> nat \<Rightarrow> 'h \<Rightarrow> error option \<times> nat \<times> 'h"

datatype select_case = CtxDone | TimerFired

text \<open>
  The part of the world a dispatch goroutine runs in: the clock, the state captured by
  the handler, and the choices of the Go runtime when more than one case of a
  \<^verbatim>\<open>select\<close> is ready (\<open>coins\<close>, of which \<open>flips\<close> have been used).
\<close>

record 'h world =
  clock :: nat
  closure :: 'h
  coins :: "nat \<Rightarrow> select_case"
  flips :: nat

text \<open>
  What a dispatch goroutine does that can be observed, in the order it does it:
  the handler is called on attempt \<open>n\<close> and returns; the engine logs its warning
  (attempt, \<^verbatim>\<open>max_retries\<close>, \<^verbatim>\<open>next_delay\<close>, error); the engine waits after attempt
  \<open>n\<close> for a delay, and the \<^verbatim>\<open>select\<close> takes one of its cases; the message with a
  given UUID is Nacked or Acked; an error is sent on the error channel, or logged as
  dropped for a topic; the error channel is closed; the wait group is told the goroutine
  is done.
\<close>

datatype event =
    Invoke int "error option"
  | LogWarn int int duration error
  | Wait int duration select_case
  | Nack string
  | Ack string
  | SendErr error
  | LogDropped error string
  | CloseErrCh
  | WgDone

definition call_handler :: "'h handler \<Rightarrow> ctx \<Rightarrow> message \<Rightarrow> 'h world \<Rightarrow> error option \<times> 'h world" where
  "call_handler handler c msg w =
     (case handler c msg (clock w) (closure w) of
        (r, took, h') \<Rightarrow> (r, w\<lparr>clock := clock w + took, closure := h'\<rparr>))"

section \<open>The retry engine\<close>

text \<open>
  \<^verbatim>\<open>select { case <-ctx.Done(): ... case <-time.After(delay): }\<close> entered at instant
  \<open>clock w\<close>.  The timer fires \<open>delay\<close> nanoseconds later (at once when \<open>delay\<close> is not
  positive); \<open>Done()\<close> can be received from the instant of cancellation on.  The case
  that is ready first is taken; when both are ready at the same instant the runtime
  chooses.
\<close>

definition backoff_select :: "ctx \<Rightarrow> duration \<Rightarrow> 'h world \<Rightarrow> select_case \<times> 'h world" where
  "backoff_select c delay w =
     (let fire = clock w + nat (sint delay) in
      case done_at c of
        None \<Rightarrow> (TimerFired, w\<lparr>clock := fire\<rparr>)
      | Some t \<Rightarrow>
          (let seen = max (clock w) t in
           if seen < fire then (CtxDone, w\<lparr>clock := seen\<rparr>)
           else if fire < seen then (TimerFired, w\<lparr>clock := fire\<rparr>)
           else (coins w (flips w), w\<lparr>clock := fire, flips := Suc (flips w)\<rparr>)))"

text \<open>
  The loop of \<^verbatim>\<open>retryWithBackoff\<close>, entered with the loop variables \<open>attempt\<close>,
  \<open>delay\<close> and \<open>err\<close>.  It returns the error of the function, the events of the run in
  order, and the world it leaves.  The counters are integers: \<open>attempt\<close> stops at
  \<open>max_retries + 1\<close>, which is a Go \<^verbatim>\<open>int\<close> unless \<open>max_retries\<close> is the largest one.
  The delay is doubled in \<^verbatim>\<open>int64\<close>, where the product wraps around.
\<close>

function retry_loop ::
  "ctx \<Rightarrow> message \<Rightarrow> 'h handler \<Rightarrow> int \<Rightarrow> int \<Rightarrow> duration \<Rightarrow> error option \<Rightarrow> 'h world
     \<Rightarrow> error option \<times> event list \<times> 'h world" where
  "retry_loop c msg handler max_retries attempt delay err w =
     (if attempt \<le> max_retries then
        (case call_handler handler c msg w of
           (None, w1) \<Rightarrow> (None, [Invoke attempt None], w1)
         | (Some e, w1) \<Rightarrow>
             if attempt < max_retries then
               (case backoff_select c delay w1 of
                  (CtxDone, w2) \<Rightarrow>
                    (Some (ctx_err c),
                     [Invoke attempt (Some e), LogWarn attempt max_retries delay e,
                      Wait attempt delay CtxDone], w2)
                | (TimerFired, w2) \<Rightarrow>
                    (case retry_loop c msg handler max_retries (attempt + 1) (delay * 2) (Some e) w2 of
                       (r, evs, w3) \<Rightarrow>
                         (r, Invoke attempt (Some e) # LogWarn attempt max_retries delay e #
                             Wait attempt delay TimerFired # evs, w3)))
             else
               (case retry_loop c msg handler max_retries (attempt + 1) delay (Some e) w1 of
                  (r, evs, w3) \<Rightarrow> (r, Invoke attempt (Some e) # evs, w3)))
      else
        (Some (Errorf_w (''events: handler failed after '' @ fmt_d max_retries @ '' retries: '') err),
         [], w))"
  by pat_completeness auto
termination
  by (relation "measure (\<lambda>(c, msg, handler, max_retries, attempt, rest). nat (max_retries + 1 - attempt))")
    auto

declare retry_loop.simps [simp del]

definition retryWithBackoff ::
  "ctx \<Rightarrow> message \<Rightarrow> 'h handler \<Rightarrow> int \<Rightarrow> duration \<Rightarrow> 'h world
     \<Rightarrow> error option \<times> event list \<times> 'h world" where
  "retryWithBackoff c msg handler max_retries base_delay w =
     retry_loop c msg handler max_retries 1 base_delay None w"

text \<open>The number of handler invocations among some events.\<close>

fun is_invoke :: "event \<Rightarrow> bool" where
  "is_invoke (Invoke n r) = True"
| "is_invoke _ = False"

definition invocations :: "event list \<Rightarrow> nat" where
  "invocations evs = length (filter is_invoke evs)"

text \<open>The events the engine itself produces.\<close>

fun is_retry_event :: "event \<Rightarrow> bool" where
  "is_retry_event (Invoke i x) = True"
| "is_retry_event (LogWarn i m d e) = True"
| "is_retry_event (Wait i d s) = True"
| "is_retry_event _ = False"

text \<open>What \<^verbatim>\<open>retryWithBackoff\<close> writes before the error it wraps.\<close>

definition retry_prefix :: "int \<Rightarrow> string" where
  "retry_prefix max_retries = ''events: handler failed after '' @ fmt_d max_retries @ '' retries: ''"

text \<open>
  To observe when the handler is called, a handler is made to note the instants at
  which each of its calls starts and ends, as a test does with \<^verbatim>\<open>time.Now()\<close>:
  \<open>stamped handler\<close> behaves as \<open>handler\<close> and appends the two instants to a list it
  captures; \<open>stamp stamps w\<close> is the world \<open>w\<close> with that list beside the state the
  handler captured.
\<close>

definition stamp :: "(nat \<times> nat) list \<Rightarrow> 'h world \<Rightarrow> ((nat \<times> nat) list \<times> 'h) world" where
  "stamp stamps w =
     \<lparr>clock = clock w, closure = (stamps, closure w), coins = coins w, flips = flips w\<rparr>"

definition stamped :: "'h handler \<Rightarrow> ((nat \<times> nat) list \<times> 'h) handler" where
  "stamped handler c msg t s =
     (case handler c msg t (snd s) of
        (x, took, h') \<Rightarrow> (x, took, (fst s @ [(t, t + took)], h')))"

section \<open>Trace propagation\<close>

text \<open>
  The OpenTelemetry propagator \<^verbatim>\<open>otel.GetTextMapPropagator()\<close> is a capability the
  bus is given.  \<open>Inject\<close> sets keys of the carrier it is handed, from the context;
  \<open>Extract\<close> reads a carrier and yields the span context of the context it returns,
  which is otherwise the context it was given (same \<^verbatim>\<open>Done()\<close>, same \<^verbatim>\<open>Err()\<close>).
\<close>

type_synonym carrier = "(string, string) fmap"

record propagator =
  Inject :: "ctx \<Rightarrow> carrier \<Rightarrow> carrier"
  Extract :: "ctx \<Rightarrow> carrier \<Rightarrow> span_context option"

text \<open>
  The first lines of the dispatch loop's body: copy \<^verbatim>\<open>msg.Metadata\<close> into a fresh
  \<^verbatim>\<open>MapCarrier\<close> (ranging over a \<^verbatim>\<open>nil\<close> map copies nothing) and extract.
\<close>

definition metadata_carrier :: "message \<Rightarrow> carrier" where
  "metadata_carrier msg = (case Metadata msg of None \<Rightarrow> fmempty | Some md \<Rightarrow> md)"

definition msg_ctx :: "propagator \<Rightarrow> ctx \<Rightarrow> message \<Rightarrow> ctx" where
  "msg_ctx P c msg = c\<lparr>span := Extract P c (metadata_carrier msg)\<rparr>"

section \<open>Subscribe and its dispatch loop\<close>

text \<open>A buffered \<^verbatim>\<open>chan error\<close>: its capacity, the errors it holds, oldest first.\<close>

record err_chan =
  cap :: nat
  buf :: "error list"
  closed :: bool

definition make_chan :: "nat \<Rightarrow> err_chan" where
  "make_chan n = \<lparr>cap = n, buf = [], closed = False\<rparr>"

text \<open>
  \<^verbatim>\<open>select { case errCh <- err: ... default: ... }\<close>: the send is taken when the buffer
  has room, the default case otherwise.  The flag tells which.
\<close>

definition try_send :: "error \<Rightarrow> err_chan \<Rightarrow> bool \<times> err_chan" where
  "try_send err ch =
     (if length (buf ch) < cap ch then (True, ch\<lparr>buf := buf ch @ [err]\<rparr>) else (False, ch))"

text \<open>The body of \<^verbatim>\<open>for msg := range ch\<close> for one message.\<close>

definition dispatch_msg ::
  "propagator \<Rightarrow> ctx \<Rightarrow> string \<Rightarrow> 'h handler \<Rightarrow> message \<Rightarrow> 'h world \<times> err_chan
     \<Rightarrow> event list \<times> 'h world \<times> err_chan" where
  "dispatch_msg P c topic handler msg st =
     (case st of (w, errCh) \<Rightarrow>
        (case retryWithBackoff (msg_ctx P c msg) msg handler maxRetries retryBaseDelay w of
           (Some err, evs, w') \<Rightarrow>
             (case try_send err errCh of
                (True, errCh') \<Rightarrow> (evs @ [Nack (UUID msg), SendErr err], w', errCh')
              | (False, errCh') \<Rightarrow> (evs @ [Nack (UUID msg), LogDropped err topic], w', errCh'))
         | (None, evs, w') \<Rightarrow> (evs @ [Ack (UUID msg)], w', errCh)))"

text \<open>
  What happens around the goroutine, in the order it happens: a message becomes
  available on the subscriber's channel at some instant, or the reader of the error
  channel receives one error (nothing, when the channel is empty).  The loop ends when
  the subscriber's channel is closed; the deferred calls then close the error channel and
  release the wait group.
\<close>

datatype input = Deliver nat message | Recv

fun dispatch_loop ::
  "propagator \<Rightarrow> ctx \<Rightarrow> string \<Rightarrow> 'h handler \<Rightarrow> input list \<Rightarrow> 'h world \<times> err_chan
     \<Rightarrow> event list \<times> 'h world \<times> err_chan" where
  "dispatch_loop P c topic handler [] (w, errCh) = ([CloseErrCh, WgDone], w, errCh\<lparr>closed := True\<rparr>)"
| "dispatch_loop P c topic handler (Deliver t msg # ins) (w, errCh) =
     (case dispatch_msg P c topic handler msg (w\<lparr>clock := max (clock w) t\<rparr>, errCh) of
        (evs, st) \<Rightarrow>
          (case dispatch_loop P c topic handler ins st of
             (evs', st') \<Rightarrow> (evs @ evs', st')))"
| "dispatch_loop P c topic handler (Recv # ins) (w, errCh) =
     dispatch_loop P c topic handler ins (w, errCh\<lparr>buf := tl (buf errCh)\<rparr>)"

text \<open>The messages a list of events settles (Acks or Nacks), in order, by UUID.\<close>

fun settled :: "event list \<Rightarrow> string list" where
  "settled [] = []"
| "settled (Ack u # evs) = u # settled evs"
| "settled (Nack u # evs) = u # settled evs"
| "settled (ev # evs) = settled evs"

fun delivered :: "input list \<Rightarrow> message list" where
  "delivered [] = []"
| "delivered (Deliver t msg # ins) = msg # delivered ins"
| "delivered (Recv # ins) = delivered ins"

section \<open>The bus\<close>

text \<open>
  What a row of the message table holds: a message as published, or an outbox envelope
  that names the topic its content is bound for.
\<close>

datatype stored = Plain message | Envelope string stored

text \<open>A SQL publisher executes on the connection pool or inside a transaction.\<close>

datatype executor = Pool | Tx nat

datatype publisher = SQLPublisher executor | ForwarderPublisher publisher string

type_synonym row = "executor \<times> string \<times> stored"

record subscriber =
  ConsumerGroup :: string

record forwarder =
  ForwarderTopic :: string
  ForwarderGroup :: string

text \<open>
  The fields of \<^verbatim>\<open>EventBus\<close>, but for the logger: \<open>db\<close> is the connection pool, known
  by the data source it was opened on, and \<open>wg\<close> is the counter of the wait group.
\<close>

record EventBus =
  publisher :: publisher
  subscriber :: subscriber
  fwd :: "forwarder option"
  db :: string
  wg :: nat
  useForwarder :: bool

record config =
  ServiceName :: string
  DefinitionDatabaseURL :: string

text \<open>
  Modelled from the spec: the \<^verbatim>\<open>Publish\<close> methods of Watermill's SQL publisher and of the
  publisher \<^verbatim>\<open>forwarder.NewPublisher\<close> returns, which the repository calls and does not
  contain.  The SQL publisher writes one row per message to the topic it is given; the
  forwarder publisher wraps each message in an envelope that carries the topic the caller
  named and hands it to the publisher it decorates, for the forwarder topic.
\<close>

fun publisher_rows :: "publisher \<Rightarrow> string \<Rightarrow> stored list \<Rightarrow> row list" where
  "publisher_rows (SQLPublisher ex) topic items = map (\<lambda>it. (ex, topic, it)) items"
| "publisher_rows (ForwarderPublisher inner forwarder_topic) topic items =
     publisher_rows inner forwarder_topic (map (Envelope topic) items)"

text \<open>
  Modelled from the spec: \<^verbatim>\<open>publisher.Publish(topic, msgs...)\<close> of those two library
  publishers, on the table \<open>rows\<close>.  The call persists atomically; \<open>fault\<close> is the
  storage error of this call, if any, in which case nothing is written.
\<close>

definition publisher_Publish ::
  "error option \<Rightarrow> publisher \<Rightarrow> string \<Rightarrow> message list \<Rightarrow> row list \<Rightarrow> error option \<times> row list" where
  "publisher_Publish fault pub topic msgs rows =
     (case fault of
        Some err \<Rightarrow> (Some err, rows)
      | None \<Rightarrow> (None, rows @ publisher_rows pub topic (map Plain msgs)))"

text \<open>
  \<^verbatim>\<open>newEventBus\<close>.  The three arguments \<open>open_err\<close>, \<open>pub_err\<close> and \<open>sub_err\<close> are
  the errors of \<^verbatim>\<open>sql.Open\<close>, \<^verbatim>\<open>watermillsql.NewPublisher\<close> and
  \<^verbatim>\<open>watermillsql.NewSubscriber\<close>.
\<close>

definition newEventBus ::
  "error option \<Rightarrow> error option \<Rightarrow> error option \<Rightarrow> config \<Rightarrow> bool \<Rightarrow> error + EventBus" where
  "newEventBus open_err pub_err sub_err cfg use_forwarder =
     (case open_err of
        Some err \<Rightarrow> Inl (WrapError ''events: open db: '' err)
      | None \<Rightarrow>
          (case pub_err of
             Some err \<Rightarrow> Inl (WrapError ''events: new publisher: '' err)
           | None \<Rightarrow>
               (let pub = SQLPublisher Pool;
                    pub' = (if use_forwarder then ForwarderPublisher pub forwarderTopic else pub)
                in case sub_err of
                     Some err \<Rightarrow> Inl (WrapError ''events: new subscriber: '' err)
                   | None \<Rightarrow>
                       Inr \<lparr>publisher = pub',
                            subscriber = \<lparr>ConsumerGroup = ServiceName cfg @ ''-consumer''\<rparr>,
                            fwd = None, db = DefinitionDatabaseURL cfg, wg = 0,
                            useForwarder = use_forwarder\<rparr>)))"

definition NewEventBus :: "error option \<Rightarrow> error option \<Rightarrow> error option \<Rightarrow> config \<Rightarrow> error + EventBus" where
  "NewEventBus open_err pub_err sub_err cfg = newEventBus open_err pub_err sub_err cfg False"

definition NewEventBusWithForwarder ::
  "error option \<Rightarrow> error option \<Rightarrow> error option \<Rightarrow> config \<Rightarrow> error + EventBus" where
  "NewEventBusWithForwarder open_err pub_err sub_err cfg = newEventBus open_err pub_err sub_err cfg True"

definition NewTxPublisher :: "error option \<Rightarrow> nat \<Rightarrow> EventBus \<Rightarrow> error + publisher" where
  "NewTxPublisher pub_err tx q =
     (case pub_err of
        Some err \<Rightarrow> Inl (WrapError ''events: new tx publisher: '' err)
      | None \<Rightarrow>
          (let pub = SQLPublisher (Tx tx)
           in if useForwarder q then Inr (ForwarderPublisher pub forwarderTopic) else Inr pub))"

section \<open>Publish\<close>

text \<open>A call either panics or returns.\<close>

datatype 'a outcome = Panic string | Return 'a

text \<open>
  \<^verbatim>\<open>for k, v := range carrier { msg.Metadata.Set(k, v) }\<close>: an assignment to an entry of
  a \<^verbatim>\<open>nil\<close> map panics; with an empty carrier there is no assignment.
\<close>

definition set_metadata :: "carrier \<Rightarrow> message \<Rightarrow> message option" where
  "set_metadata carrier msg =
     (if carrier = fmempty then Some msg
      else case Metadata msg of
             None \<Rightarrow> None
           | Some md \<Rightarrow> Some (msg\<lparr>Metadata := Some (md ++\<^sub>f carrier)\<rparr>))"

fun set_metadata_all :: "carrier \<Rightarrow> message list \<Rightarrow> message list option" where
  "set_metadata_all carrier [] = Some []"
| "set_metadata_all carrier (msg # msgs) =
     (case set_metadata carrier msg of
        None \<Rightarrow> None
      | Some msg' \<Rightarrow> map_option ((#) msg') (set_metadata_all carrier msgs))"

text \<open>
  \<^verbatim>\<open>EventBus.Publish\<close>.  It returns its error, the messages as it leaves them (they are
  passed by pointer) and the table.
\<close>

definition Publish ::
  "propagator \<Rightarrow> error option \<Rightarrow> ctx \<Rightarrow> string \<Rightarrow> message list \<Rightarrow> EventBus \<Rightarrow> row list
     \<Rightarrow> (error option \<times> message list \<times> row list) outcome" where
  "Publish P fault c topic msgs q rows =
     (let carrier = Inject P c fmempty
      in case set_metadata_all carrier msgs of
           None \<Rightarrow> Panic ''assignment to entry in nil map''
         | Some msgs' \<Rightarrow>
             (case publisher_Publish fault (publisher q) topic msgs' rows of
                (Some err, rows') \<Rightarrow>
                  Return (Some (WrapError (''events: publish to '' @ topic @ '': '') err), msgs', rows')
              | (None, rows') \<Rightarrow> Return (None, msgs', rows')))"

text \<open>
  \<^verbatim>\<open>EventBus.Subscribe\<close> up to the start of its goroutine, which is \<open>dispatch_loop\<close>
  on the channel returned here; \<open>subscribe_err\<close> is the error of
  \<^verbatim>\<open>q.subscriber.Subscribe\<close>.
\<close>

definition Subscribe :: "error option \<Rightarrow> string \<Rightarrow> EventBus \<Rightarrow> error + err_chan \<times> EventBus" where
  "Subscribe subscribe_err topic q =
     (case subscribe_err of
        Some err \<Rightarrow> Inl (WrapError (''events: subscribe to '' @ topic @ '': '') err)
      | None \<Rightarrow> Inr (make_chan 100, q\<lparr>wg := wg q + 1\<rparr>))"


section \<open>StartForwarder\<close>

text \<open>
  The environment of one call: the errors of the three constructors
  (\<^verbatim>\<open>watermillsql.NewSubscriber\<close>, \<^verbatim>\<open>watermillsql.NewPublisher\<close>,
  \<^verbatim>\<open>forwarder.NewForwarder\<close>), the instant at which \<^verbatim>\<open>fwd.Running()\<close> is closed
  (\<open>None\<close>: never), the instant at which the final \<^verbatim>\<open>select\<close> is entered, and the
  runtime's choice when both of its cases are ready.
\<close>

datatype start_case = ForwarderRunning | StartCtxDone

record start_env =
  fwd_subscriber_err :: "error option"
  target_publisher_err :: "error option"
  new_forwarder_err :: "error option"
  running_at :: "nat option"
  start_now :: nat
  start_pick :: start_case

datatype start_event =
    NewFwdSubscriber string
  | NewTargetPublisher
  | NewForwarder string
  | CloseFwdSubscriber
  | CloseTargetPublisher
  | GoForwarderRun

text \<open>
  \<^verbatim>\<open>select { case <-fwd.Running(): case <-ctx.Done(): ... }\<close>; \<open>None\<close> when neither
  channel is ever closed and the call never returns.
\<close>

definition await_running :: "start_env \<Rightarrow> ctx \<Rightarrow> start_case option" where
  "await_running env c =
     (case (running_at env, done_at c) of
        (None, None) \<Rightarrow> None
      | (Some r, None) \<Rightarrow> Some ForwarderRunning
      | (None, Some d) \<Rightarrow> Some StartCtxDone
      | (Some r, Some d) \<Rightarrow>
          (let r' = max (start_now env) r; d' = max (start_now env) d
           in if r' < d' then Some ForwarderRunning
              else if d' < r' then Some StartCtxDone
              else Some (start_pick env)))"

text \<open>
  The bus after \<^verbatim>\<open>q.fwd = fwd\<close> and \<^verbatim>\<open>q.wg.Add(1)\<close>, and what the call has done by
  then: it has built the forwarder's subscriber and publisher and the forwarder, and
  started the goroutine that runs it.
\<close>

definition started :: "EventBus \<Rightarrow> EventBus" where
  "started q = q\<lparr>fwd := Some \<lparr>ForwarderTopic = forwarderTopic,
                                ForwarderGroup = ''forwarder-consumer''\<rparr>,
                  wg := wg q + 1\<rparr>"

definition start_events :: "start_event list" where
  "start_events =
     [NewFwdSubscriber ''forwarder-consumer'', NewTargetPublisher, NewForwarder forwarderTopic,
      GoForwarderRun]"

definition StartForwarder ::
  "start_env \<Rightarrow> ctx \<Rightarrow> EventBus \<Rightarrow> (error option \<times> start_event list \<times> EventBus) option" where
  "StartForwarder env c q =
     (if \<not> useForwarder q then
        Some (Some (ErrorString ''events: StartForwarder called on non-forwarder EventBus''), [], q)
      else if fwd q \<noteq> None then
        Some (Some (ErrorString ''events: forwarder already started''), [], q)
      else
        (case fwd_subscriber_err env of
           Some err \<Rightarrow> Some (Some (WrapError ''events: new forwarder subscriber: '' err), [], q)
         | None \<Rightarrow>
             (case target_publisher_err env of
                Some err \<Rightarrow>
                  Some (Some (WrapError ''events: new forwarder target publisher: '' err),
                        [NewFwdSubscriber ''forwarder-consumer'', CloseFwdSubscriber], q)
              | None \<Rightarrow>
                  (case new_forwarder_err env of
                     Some err \<Rightarrow>
                       Some (Some (WrapError ''events: create forwarder: '' err),
                             [NewFwdSubscriber ''forwarder-consumer'', NewTargetPublisher,
                              CloseTargetPublisher, CloseFwdSubscriber], q)
                   | None \<Rightarrow>
                       (case await_running env c of
                          None \<Rightarrow> None
                        | Some ForwarderRunning \<Rightarrow> Some (None, start_events, started q)
                        | Some StartCtxDone \<Rightarrow>
                            Some (Some (WrapError ''events: context cancelled waiting for forwarder: ''
                                          (ctx_err c)), start_events, started q))))))"

section \<open>Close\<close>

text \<open>
  The environment of one call: the errors of the four \<^verbatim>\<open>Close\<close> calls it makes, the
  instant at which the wait group reaches zero (\<open>None\<close>: never), the instant at which the
  \<^verbatim>\<open>select\<close> on \<^verbatim>\<open>done\<close> and the timeout context is entered, and the runtime's choice
  when both are ready.
\<close>

datatype wait_case = HandlersDone | TimedOut

record close_env =
  subscriber_close :: "error option"
  forwarder_close :: "error option"
  drained_at :: "nat option"
  publisher_close :: "error option"
  db_close :: "error option"
  close_now :: nat
  close_pick :: wait_case

datatype shutdown_step =
    CloseSubscriber
  | CloseForwarder
  | WaitInFlight wait_case nat
  | LogTimeout
  | ClosePublisher
  | CloseDB

text \<open>The case the \<^verbatim>\<open>select\<close> takes, and the instant at which it takes it.\<close>

definition wait_in_flight :: "close_env \<Rightarrow> wait_case \<times> nat" where
  "wait_in_flight env =
     (let deadline = close_now env + nat (sint shutdownTimeout)
      in case drained_at env of
           None \<Rightarrow> (TimedOut, deadline)
         | Some t \<Rightarrow>
             (let seen = max (close_now env) t
              in if seen < deadline then (HandlersDone, seen)
                 else if deadline < seen then (TimedOut, deadline)
                 else (close_pick env, deadline)))"

text \<open>The wait and its log line, with the time the wait took.\<close>

definition wait_steps :: "close_env \<Rightarrow> shutdown_step list" where
  "wait_steps env =
     (case wait_in_flight env of
        (HandlersDone, t) \<Rightarrow> [WaitInFlight HandlersDone (t - close_now env)]
      | (TimedOut, t) \<Rightarrow> [WaitInFlight TimedOut (t - close_now env), LogTimeout])"

text \<open>\<^verbatim>\<open>EventBus.Close\<close>: the error it returns and the steps it performed, in order.\<close>

definition Close :: "close_env \<Rightarrow> EventBus \<Rightarrow> error option \<times> shutdown_step list" where
  "Close env q =
     (case subscriber_close env of
        Some err \<Rightarrow> (Some (WrapError ''events: close subscriber: '' err), [CloseSubscriber])
      | None \<Rightarrow>
          (case (if fwd q \<noteq> None then forwarder_close env else None) of
             Some err \<Rightarrow>
               (Some (WrapError ''events: close forwarder: '' err), [CloseSubscriber, CloseForwarder])
           | None \<Rightarrow>
               (let steps = CloseSubscriber # (if fwd q \<noteq> None then [CloseForwarder] else []) @
                      wait_steps env
                in case publisher_close env of
                     Some err \<Rightarrow>
                       (Some (WrapError ''events: close publisher: '' err), steps @ [ClosePublisher])
                   | None \<Rightarrow> (db_close env, steps @ [ClosePublisher, CloseDB]))))"

text \<open>
  The shutdown order in the words of the specification: close the subscriber, close the
  forwarder if it is running, wait for the in-flight handlers (logging a timeout), close
  the publisher, close the database connection.
\<close>

definition shutdown_order :: "close_env \<Rightarrow> EventBus \<Rightarrow> shutdown_step list" where
  "shutdown_order env q =
     [CloseSubscriber] @ (if fwd q \<noteq> None then [CloseForwarder] else []) @ wait_steps env @
     [ClosePublisher, CloseDB]"


section \<open>Example inputs\<close>

text \<open>
  The contexts of \<^verbatim>\<open>watermill_test.go\<close>, \<^verbatim>\<open>context.Background()\<close> and a context
  cancelled before use, and one cancelled half a second after the clock starts.
\<close>

definition Background :: ctx where
  "Background = \<lparr>done_at = None, ctx_err = Canceled, span = None\<rparr>"

definition cancelled_ctx :: ctx where
  "cancelled_ctx = \<lparr>done_at = Some 0, ctx_err = Canceled, span = None\<rparr>"

definition cancelled_later :: ctx where
  "cancelled_later = \<lparr>done_at = Some 500000000, ctx_err = Canceled, span = None\<rparr>"

text \<open>
  The handlers of \<^verbatim>\<open>watermill_test.go\<close>; each captures its counter \<^verbatim>\<open>calls\<close>.
  The first fails on every call, the second fails until its third call, the third
  succeeds at once.
\<close>

definition permanent_handler :: "nat handler" where
  "permanent_handler c msg t calls = (Some (ErrorString ''permanent error''), 0, calls + 1)"

definition transient_handler :: "nat handler" where
  "transient_handler c msg t calls =
     (if calls + 1 < 3 then Some (ErrorString ''transient error'') else None, 0, calls + 1)"

definition ok_handler :: "nat handler" where
  "ok_handler c msg t calls = (None, 0, calls + 1)"

definition test_msg :: message where
  "test_msg = NewMessage ''id'' []"

definition world0 :: "nat world" where
  "world0 = \<lparr>clock = 0, closure = 0, coins = (\<lambda>n. TimerFired), flips = 0\<rparr>"

text \<open>The propagator OpenTelemetry installs by default: it injects and extracts nothing.\<close>

definition noop_propagator :: propagator where
  "noop_propagator = \<lparr>Inject = (\<lambda>c carrier. carrier), Extract = (\<lambda>c carrier. span c)\<rparr>"

text \<open>An error channel of capacity 100 that nobody has read from: it is full.\<close>

definition full_chan :: err_chan where
  "full_chan = (make_chan 100)\<lparr>buf := replicate 100 (ErrorString ''earlier error'')\<rparr>"

text \<open>A second message, and a message as the item repository builds it.\<close>

definition second_msg :: message where
  "second_msg = NewMessage ''id-2'' []"

definition item_msg :: message where
  "item_msg = \<lparr>UUID = ''id'', Metadata = Some (fmupd ''event_version'' ''1'' fmempty),
     Payload = ''{}''\<rparr>"

text \<open>
  The W3C trace-context propagator (\<^verbatim>\<open>propagation.TraceContext\<close>), which the test of
  the package installs, as far as the two identifiers go and for a sampled span: for a
  span with a trace identifier of 32 characters and a span identifier of 16 it injects the
  key \<^verbatim>\<open>traceparent\<close> with the value \<^verbatim>\<open>00-<trace id>-<span id>-01\<close>; from a value
  of four fields of that shape it extracts the two identifiers, and it leaves the context
  as it is otherwise.  A context with a span, and the message above as \<^verbatim>\<open>Publish\<close>
  leaves it under that context.
\<close>

fun dash_fields :: "string \<Rightarrow> string list" where
  "dash_fields [] = [[]]"
| "dash_fields (ch # s) =
     (if ch = CHR ''-'' then [] # dash_fields s
      else case dash_fields s of
             f # fs \<Rightarrow> (ch # f) # fs
           | [] \<Rightarrow> [[ch]])"

definition traceparent_propagator :: propagator where
  "traceparent_propagator =
     \<lparr>Inject = (\<lambda>c carrier.
         case span c of
           None \<Rightarrow> carrier
         | Some sc \<Rightarrow>
             if length (TraceID sc) = 32 \<and> length (SpanID sc) = 16
             then fmupd ''traceparent'' (''00-'' @ TraceID sc @ ''-'' @ SpanID sc @ ''-01'') carrier
             else carrier),
      Extract = (\<lambda>c carrier.
         case fmlookup carrier ''traceparent'' of
           None \<Rightarrow> span c
         | Some v \<Rightarrow>
             (case dash_fields v of
                [ver, tid, sid, flags] \<Rightarrow>
                  if ver = ''00'' \<and> length tid = 32 \<and> length sid = 16 \<and> length flags = 2
                  then Some \<lparr>TraceID = tid, SpanID = sid\<rparr>
                  else span c
              | _ \<Rightarrow> span c))\<rparr>"

definition traced_ctx :: ctx where
  "traced_ctx = \<lparr>done_at = None, ctx_err = Canceled,
     span = Some \<lparr>TraceID = ''4bf92f3577b34da6a3ce929d0e0e4736'', SpanID = ''00f067aa0ba902b7''\<rparr>\<rparr>"

definition published_item :: message where
  "published_item = item_msg\<lparr>Metadata := Some (fmupd ''event_version'' ''1'' fmempty ++\<^sub>f
     fmupd ''traceparent'' ''00-4bf92f3577b34da6a3ce929d0e0e4736-00f067aa0ba902b7-01'' fmempty)\<rparr>"

text \<open>
  A bus as \<^verbatim>\<open>NewEventBus\<close> builds it and one as \<^verbatim>\<open>NewEventBusWithForwarder\<close> does,
  for the service \<^verbatim>\<open>item\<close>.
\<close>

definition item_config :: config where
  "item_config = \<lparr>ServiceName = ''item'', DefinitionDatabaseURL = ''postgres://localhost/items''\<rparr>"

definition plain_bus :: EventBus where
  "plain_bus = \<lparr>publisher = SQLPublisher Pool, subscriber = \<lparr>ConsumerGroup = ''item-consumer''\<rparr>,
     fwd = None, db = ''postgres://localhost/items'', wg = 0, useForwarder = False\<rparr>"

definition forwarder_bus :: EventBus where
  "forwarder_bus = \<lparr>publisher = ForwarderPublisher (SQLPublisher Pool) forwarderTopic,
     subscriber = \<lparr>ConsumerGroup = ''item-consumer''\<rparr>,
     fwd = None, db = ''postgres://localhost/items'', wg = 0, useForwarder = True\<rparr>"

text \<open>
  Environments of \<^verbatim>\<open>Close\<close> and \<^verbatim>\<open>StartForwarder\<close>: one where every step succeeds
  and no handler is in flight, one where closing the forwarder fails (its router did not
  stop in time), one where a goroutine of the bus never finishes, and one where the
  forwarder starts at once.
\<close>

definition close_ok :: close_env where
  "close_ok = \<lparr>subscriber_close = None, forwarder_close = None, drained_at = Some 0,
     publisher_close = None, db_close = None, close_now = 0, close_pick = TimedOut\<rparr>"

definition close_forwarder_fails :: close_env where
  "close_forwarder_fails = close_ok\<lparr>forwarder_close := Some (ErrorString ''router close timeout'')\<rparr>"

definition close_handlers_stuck :: close_env where
  "close_handlers_stuck = close_ok\<lparr>drained_at := None\<rparr>"

definition start_ok :: start_env where
  "start_ok = \<lparr>fwd_subscriber_err = None, target_publisher_err = None, new_forwarder_err = None,
     running_at = Some 0, start_now = 0, start_pick = ForwarderRunning\<rparr>"

section \<open>Properties of the retry loop\<close>

text \<open>One step of the loop, for each of the paths through its body.\<close>

lemma retry_loop_success:
  assumes "attempt \<le> max_retries" "call_handler handler c msg w = (None, w1)"
  shows "retry_loop c msg handler max_retries attempt delay err w = (None, [Invoke attempt None], w1)"
  using assms by (subst retry_loop.simps) simp

lemma retry_loop_abort:
  assumes "attempt < max_retries" "call_handler handler c msg w = (Some e, w1)"
    "backoff_select c delay w1 = (CtxDone, w2)"
  shows "retry_loop c msg handler max_retries attempt delay err w =
    (Some (ctx_err c), [Invoke attempt (Some e), LogWarn attempt max_retries delay e, Wait attempt delay CtxDone], w2)"
  using assms by (subst retry_loop.simps) simp

lemma retry_loop_again:
  assumes "attempt < max_retries" "call_handler handler c msg w = (Some e, w1)"
    "backoff_select c delay w1 = (TimerFired, w2)"
    "retry_loop c msg handler max_retries (attempt + 1) (delay * 2) (Some e) w2 = (r, evs, w3)"
  shows "retry_loop c msg handler max_retries attempt delay err w =
    (r, Invoke attempt (Some e) # LogWarn attempt max_retries delay e # Wait attempt delay TimerFired # evs, w3)"
  using assms by (subst retry_loop.simps) simp

lemma retry_loop_exhausted:
  assumes "max_retries < attempt"
  shows "retry_loop c msg handler max_retries attempt delay err w =
    (Some (Errorf_w (retry_prefix max_retries) err), [], w)"
  using assms by (subst retry_loop.simps) (simp add: retry_prefix_def)

lemma retry_loop_final:
  assumes "attempt = max_retries" "call_handler handler c msg w = (Some e, w1)"
  shows "retry_loop c msg handler max_retries attempt delay err w =
    (Some (WrapError (retry_prefix max_retries) e), [Invoke attempt (Some e)], w1)"
  using assms by (subst retry_loop.simps) (simp add: retry_loop_exhausted Errorf_w_def)

text \<open>Induction and case analysis along the loop.\<close>

lemma retry_loop_induct [case_names exhausted success final abort again]:
  fixes max_retries attempt :: int and delay :: duration and err :: "error option"
    and handler :: "'h handler" and w :: "'h world"
  assumes exhausted: "\<And>attempt delay err w. max_retries < attempt \<Longrightarrow> P attempt delay err w"
    and success: "\<And>attempt delay err w w1. attempt \<le> max_retries \<Longrightarrow>
        call_handler handler c msg w = (None, w1) \<Longrightarrow> P attempt delay err w"
    and final: "\<And>attempt delay err w e w1. attempt = max_retries \<Longrightarrow>
        call_handler handler c msg w = (Some e, w1) \<Longrightarrow> P attempt delay err w"
    and abort: "\<And>attempt delay err w e w1 w2. attempt < max_retries \<Longrightarrow>
        call_handler handler c msg w = (Some e, w1) \<Longrightarrow>
        backoff_select c delay w1 = (CtxDone, w2) \<Longrightarrow> P attempt delay err w"
    and again: "\<And>attempt delay err w e w1 w2. attempt < max_retries \<Longrightarrow>
        call_handler handler c msg w = (Some e, w1) \<Longrightarrow>
        backoff_select c delay w1 = (TimerFired, w2) \<Longrightarrow>
        P (attempt + 1) (delay * 2) (Some e) w2 \<Longrightarrow> P attempt delay err w"
  shows "P attempt delay err w"
proof (induction "nat (max_retries + 1 - attempt)" arbitrary: attempt delay err w)
  case (0 attempt delay err w)
  then have "max_retries < attempt" by simp
  then show ?case by (rule exhausted)
next
  case (Suc n attempt delay err w)
  then have le: "attempt \<le> max_retries" by simp
  obtain r w1 where call: "call_handler handler c msg w = (r, w1)"
    by (cases "call_handler handler c msg w")
  show ?case
  proof (cases r)
    case None
    with le call show ?thesis by (auto intro: success)
  next
    case (Some e)
    show ?thesis
    proof (cases "attempt = max_retries")
      case True
      with call Some show ?thesis by (auto intro: final)
    next
      case False
      with le have lt: "attempt < max_retries" by simp
      obtain s w2 where sel: "backoff_select c delay w1 = (s, w2)"
        by (cases "backoff_select c delay w1")
      show ?thesis
      proof (cases s)
        case CtxDone
        with lt call Some sel show ?thesis by (auto intro: abort)
      next
        case TimerFired
        from Suc.hyps(2) lt have "n = nat (max_retries + 1 - (attempt + 1))" by simp
        then have "P (attempt + 1) (delay * 2) (Some e) w2" by (rule Suc.hyps(1))
        with lt call Some sel TimerFired show ?thesis by (auto intro: again)
      qed
    qed
  qed
qed

lemma retry_loop_againE:
  assumes "attempt < max_retries" "call_handler handler c msg w = (Some e, w1)"
    "backoff_select c delay w1 = (TimerFired, w2)"
    "retry_loop c msg handler max_retries attempt delay err w = (r, evs, w')"
  obtains evs' where
    "retry_loop c msg handler max_retries (attempt + 1) (delay * 2) (Some e) w2 = (r, evs', w')"
    "evs = Invoke attempt (Some e) # LogWarn attempt max_retries delay e #
       Wait attempt delay TimerFired # evs'"
proof -
  obtain r' evs' w3 where rec:
    "retry_loop c msg handler max_retries (attempt + 1) (delay * 2) (Some e) w2 = (r', evs', w3)"
    by (cases "retry_loop c msg handler max_retries (attempt + 1) (delay * 2) (Some e) w2")
  with assms have "r = r'" "w' = w3"
    "evs = Invoke attempt (Some e) # LogWarn attempt max_retries delay e #
       Wait attempt delay TimerFired # evs'"
    by (simp_all add: retry_loop_again)
  with rec that show ?thesis by simp
qed

lemma retry_loop_invoke_range:
  "retry_loop c msg handler max_retries attempt delay err w = (r, evs, w') \<Longrightarrow>
   Invoke i x \<in> set evs \<Longrightarrow> attempt \<le> i \<and> i \<le> max_retries"
proof (induction attempt delay err w arbitrary: evs
    rule: retry_loop_induct [where max_retries = max_retries and handler = handler and c = c and msg = msg])
  case (again attempt delay err w e w1 w2)
  from again.hyps again.prems(1) obtain evs' where
    rec: "retry_loop c msg handler max_retries (attempt + 1) (delay * 2) (Some e) w2 = (r, evs', w')"
    and evs: "evs = Invoke attempt (Some e) # LogWarn attempt max_retries delay e #
       Wait attempt delay TimerFired # evs'"
    by (rule retry_loop_againE)
  show ?case
  proof (cases "Invoke i x \<in> set evs'")
    case True
    with again.IH [OF rec] show ?thesis by simp
  next
    case False
    with evs again.prems(2) again.hyps(1) show ?thesis by simp
  qed
qed (auto simp: retry_loop_exhausted retry_loop_success retry_loop_final retry_loop_abort)

lemma call_handler_result:
  "call_handler handler c msg w = (x, w1) \<Longrightarrow> \<exists>t h. x = fst (handler c msg t h)"
  by (auto simp: call_handler_def split: prod.splits) (metis fst_conv)

lemma retry_loop_invoke_result:
  "retry_loop c msg handler max_retries attempt delay err w = (r, evs, w') \<Longrightarrow>
   Invoke i x \<in> set evs \<Longrightarrow> \<exists>t h. x = fst (handler c msg t h)"
proof (induction attempt delay err w arbitrary: evs
    rule: retry_loop_induct [where max_retries = max_retries and handler = handler and c = c and msg = msg])
  case (success attempt delay err w w1)
  from success.hyps(2) have here: "\<exists>t h. None = fst (handler c msg t h)"
    by (rule call_handler_result)
  from success have "x = None" by (auto simp: retry_loop_success)
  with here show ?case by blast
next
  case (final attempt delay err w e w1)
  from final.hyps(2) have here: "\<exists>t h. Some e = fst (handler c msg t h)"
    by (rule call_handler_result)
  from final have "x = Some e" by (auto simp: retry_loop_final)
  with here show ?case by blast
next
  case (abort attempt delay err w e w1 w2)
  from abort.hyps(2) have here: "\<exists>t h. Some e = fst (handler c msg t h)"
    by (rule call_handler_result)
  from abort have "x = Some e" by (auto simp: retry_loop_abort)
  with here show ?case by blast
next
  case (again attempt delay err w e w1 w2)
  from again.hyps again.prems(1) obtain evs' where
    rec: "retry_loop c msg handler max_retries (attempt + 1) (delay * 2) (Some e) w2 = (r, evs', w')"
    and evs: "evs = Invoke attempt (Some e) # LogWarn attempt max_retries delay e #
       Wait attempt delay TimerFired # evs'"
    by (rule retry_loop_againE)
  from again.hyps(2) have here: "\<exists>t h. Some e = fst (handler c msg t h)"
    by (rule call_handler_result)
  show ?case
  proof (cases "Invoke i x \<in> set evs'")
    case True
    with again.IH [OF rec] show ?thesis by simp
  next
    case False
    with evs again.prems(2) have "x = Some e" by simp
    with here show ?thesis by blast
  qed
qed (auto simp: retry_loop_exhausted)

lemma retry_loop_cases [case_names exhausted success final abort again]:
  fixes max_retries attempt :: int and delay :: duration and handler :: "'h handler"
    and w :: "'h world"
  obtains "max_retries < attempt"
  | w1 where "attempt \<le> max_retries" "call_handler handler c msg w = (None, w1)"
  | e w1 where "attempt = max_retries" "call_handler handler c msg w = (Some e, w1)"
  | e w1 w2 where "attempt < max_retries" "call_handler handler c msg w = (Some e, w1)"
      "backoff_select c delay w1 = (CtxDone, w2)"
  | e w1 w2 where "attempt < max_retries" "call_handler handler c msg w = (Some e, w1)"
      "backoff_select c delay w1 = (TimerFired, w2)"
proof (cases "max_retries < attempt")
  case True
  then show ?thesis by (rule that(1))
next
  case False
  then have le: "attempt \<le> max_retries" by simp
  obtain x w1 where call: "call_handler handler c msg w = (x, w1)"
    by (cases "call_handler handler c msg w")
  obtain s w2 where sel: "backoff_select c delay w1 = (s, w2)"
    by (cases "backoff_select c delay w1")
  show ?thesis
  proof (cases x)
    case None
    with le call show ?thesis by (auto intro: that(2))
  next
    case (Some e)
    show ?thesis
    proof (cases "attempt = max_retries")
      case True
      with call Some show ?thesis by (auto intro: that(3))
    next
      case False
      with le have "attempt < max_retries" by simp
      with call Some sel show ?thesis by (cases s) (auto intro: that(4) that(5))
    qed
  qed
qed

lemma retry_loop_head:
  assumes "attempt \<le> max_retries"
    "retry_loop c msg handler max_retries attempt delay err w = (r, evs, w')"
  shows "\<exists>x rest. evs = Invoke attempt x # rest \<and> (\<forall>j y. Invoke j y \<in> set rest \<longrightarrow> attempt < j)"
proof (cases rule: retry_loop_cases [where max_retries = max_retries and attempt = attempt and handler = handler and c = c and msg = msg and w = w and delay = delay])
  case (again e w1 w2)
  with assms(2) obtain evs' where
    rec: "retry_loop c msg handler max_retries (attempt + 1) (delay * 2) (Some e) w2 = (r, evs', w')"
    and evs: "evs = Invoke attempt (Some e) # LogWarn attempt max_retries delay e #
       Wait attempt delay TimerFired # evs'"
    by (auto elim: retry_loop_againE)
  from retry_loop_invoke_range [OF rec] have "\<forall>j y. Invoke j y \<in> set evs' \<longrightarrow> attempt < j"
    by fastforce
  with evs show ?thesis by simp
qed (use assms in \<open>auto simp: retry_loop_exhausted retry_loop_success retry_loop_final retry_loop_abort\<close>)

lemma retry_loop_wait:
  "retry_loop c msg handler max_retries attempt delay err w = (r, evs, w') \<Longrightarrow>
   Wait i d s \<in> set evs \<Longrightarrow>
   attempt \<le> i \<and> i < max_retries \<and> d = delay * 2 ^ nat (i - attempt) \<and>
   (\<exists>e. Invoke i (Some e) \<in> set evs) \<and> Invoke i None \<notin> set evs"
proof (induction attempt delay err w arbitrary: evs
    rule: retry_loop_induct [where max_retries = max_retries and handler = handler and c = c and msg = msg])
  case (again attempt delay err w e w1 w2)
  from again.hyps again.prems(1) obtain evs' where
    rec: "retry_loop c msg handler max_retries (attempt + 1) (delay * 2) (Some e) w2 = (r, evs', w')"
    and evs: "evs = Invoke attempt (Some e) # LogWarn attempt max_retries delay e #
       Wait attempt delay TimerFired # evs'"
    by (rule retry_loop_againE)
  have later: "\<And>j y. Invoke j y \<in> set evs' \<Longrightarrow> attempt < j"
    using retry_loop_invoke_range [OF rec] by fastforce
  show ?case
  proof (cases "Wait i d s \<in> set evs'")
    case True
    from again.IH [OF rec True]
    have ih: "attempt + 1 \<le> i" "i < max_retries" "d = delay * 2 * 2 ^ nat (i - (attempt + 1))"
      "\<exists>e. Invoke i (Some e) \<in> set evs'" "Invoke i None \<notin> set evs'"
      by simp_all
    from ih(1) have "nat (i - attempt) = Suc (nat (i - (attempt + 1)))" by simp
    with ih(3) have "d = delay * 2 ^ nat (i - attempt)" by (simp add: mult.assoc)
    with ih evs show ?thesis by auto
  next
    case False
    with evs again.prems(2) have "i = attempt" "d = delay" by simp_all
    with evs again.hyps(1) later show ?thesis by auto
  qed
qed (auto simp: retry_loop_exhausted retry_loop_success retry_loop_final retry_loop_abort)

lemma retry_loop_next:
  "retry_loop c msg handler max_retries attempt delay err w = (r, evs, w') \<Longrightarrow>
   Invoke (i + 1) x \<in> set evs \<Longrightarrow> attempt \<le> i \<Longrightarrow>
   \<exists>e pre post. evs = pre @ [Invoke i (Some e),
       LogWarn i max_retries (delay * 2 ^ nat (i - attempt)) e,
       Wait i (delay * 2 ^ nat (i - attempt)) TimerFired, Invoke (i + 1) x] @ post"
proof (induction attempt delay err w arbitrary: evs
    rule: retry_loop_induct [where max_retries = max_retries and handler = handler and c = c and msg = msg])
  case (again attempt delay err w e w1 w2)
  from again.hyps again.prems(1) obtain evs' where
    rec: "retry_loop c msg handler max_retries (attempt + 1) (delay * 2) (Some e) w2 = (r, evs', w')"
    and evs: "evs = Invoke attempt (Some e) # LogWarn attempt max_retries delay e #
       Wait attempt delay TimerFired # evs'"
    by (rule retry_loop_againE)
  from evs again.prems(2,3) have mem: "Invoke (i + 1) x \<in> set evs'" by simp
  show ?case
  proof (cases "i = attempt")
    case True
    from again.hyps(1) have "attempt + 1 \<le> max_retries" by simp
    from retry_loop_head [OF this rec] obtain y rest where
      hd: "evs' = Invoke (attempt + 1) y # rest"
      and rest: "\<forall>j z. Invoke j z \<in> set rest \<longrightarrow> attempt + 1 < j"
      by blast
    from mem hd rest True have "y = x" by auto
    with hd evs True have "evs = [] @ [Invoke i (Some e),
       LogWarn i max_retries (delay * 2 ^ nat (i - attempt)) e,
       Wait i (delay * 2 ^ nat (i - attempt)) TimerFired, Invoke (i + 1) x] @ rest"
      by simp
    then show ?thesis by blast
  next
    case False
    with again.prems(3) have le: "attempt + 1 \<le> i" by simp
    then have exp: "nat (i - attempt) = Suc (nat (i - (attempt + 1)))" by simp
    from again.IH [OF rec mem le] obtain e' pre post where
      "evs' = pre @ [Invoke i (Some e'),
       LogWarn i max_retries (delay * 2 * 2 ^ nat (i - (attempt + 1))) e',
       Wait i (delay * 2 * 2 ^ nat (i - (attempt + 1))) TimerFired, Invoke (i + 1) x] @ post"
      by blast
    with evs exp have "evs = (Invoke attempt (Some e) # LogWarn attempt max_retries delay e #
       Wait attempt delay TimerFired # pre) @ [Invoke i (Some e'),
       LogWarn i max_retries (delay * 2 ^ nat (i - attempt)) e',
       Wait i (delay * 2 ^ nat (i - attempt)) TimerFired, Invoke (i + 1) x] @ post"
      by (simp add: mult.assoc)
    then show ?thesis by blast
  qed
qed (auto simp: retry_loop_exhausted retry_loop_success retry_loop_final retry_loop_abort)

lemma invocations_simps [simp]:
  "invocations [] = 0"
  "invocations (Invoke i x # evs) = Suc (invocations evs)"
  "invocations (LogWarn i m d e # evs) = invocations evs"
  "invocations (Wait i d s # evs) = invocations evs"
  by (simp_all add: invocations_def)

lemma retry_loop_success_run:
  "retry_loop c msg handler max_retries attempt delay err w = (r, evs, w') \<Longrightarrow>
   Invoke i None \<in> set evs \<Longrightarrow>
   r = None \<and> last evs = Invoke i None \<and> invocations evs = nat (i + 1 - attempt) \<and>
   (\<forall>j y. Invoke j y \<in> set evs \<longrightarrow> j < i \<longrightarrow> y \<noteq> None)"
proof (induction attempt delay err w arbitrary: evs
    rule: retry_loop_induct [where max_retries = max_retries and handler = handler and c = c and msg = msg])
  case (again attempt delay err w e w1 w2)
  from again.hyps again.prems(1) obtain evs' where
    rec: "retry_loop c msg handler max_retries (attempt + 1) (delay * 2) (Some e) w2 = (r, evs', w')"
    and evs: "evs = Invoke attempt (Some e) # LogWarn attempt max_retries delay e #
       Wait attempt delay TimerFired # evs'"
    by (rule retry_loop_againE)
  from evs again.prems(2) have mem: "Invoke i None \<in> set evs'" by simp
  from retry_loop_invoke_range [OF rec mem] have "attempt + 1 \<le> i" by simp
  then have "nat (i + 1 - attempt) = Suc (nat (i + 1 - (attempt + 1)))" by simp
  with again.IH [OF rec mem] evs mem show ?case by auto
qed (auto simp: retry_loop_exhausted retry_loop_success retry_loop_final retry_loop_abort)

lemma retry_loop_interrupted:
  "retry_loop c msg handler max_retries attempt delay err w = (r, evs, w') \<Longrightarrow>
   Wait i d CtxDone \<in> set evs \<Longrightarrow>
   r = Some (ctx_err c) \<and> last evs = Wait i d CtxDone \<and> invocations evs = nat (i + 1 - attempt)"
proof (induction attempt delay err w arbitrary: evs
    rule: retry_loop_induct [where max_retries = max_retries and handler = handler and c = c and msg = msg])
  case (again attempt delay err w e w1 w2)
  from again.hyps again.prems(1) obtain evs' where
    rec: "retry_loop c msg handler max_retries (attempt + 1) (delay * 2) (Some e) w2 = (r, evs', w')"
    and evs: "evs = Invoke attempt (Some e) # LogWarn attempt max_retries delay e #
       Wait attempt delay TimerFired # evs'"
    by (rule retry_loop_againE)
  from evs again.prems(2) have mem: "Wait i d CtxDone \<in> set evs'" by simp
  from retry_loop_wait [OF rec mem] have "attempt + 1 \<le> i" by simp
  then have "nat (i + 1 - attempt) = Suc (nat (i + 1 - (attempt + 1)))" by simp
  with again.IH [OF rec mem] evs mem show ?case by auto
qed (auto simp: retry_loop_exhausted retry_loop_success retry_loop_final retry_loop_abort)

lemma retry_loop_all_fail:
  "retry_loop c msg handler max_retries attempt delay err w = (r, evs, w') \<Longrightarrow>
   attempt \<le> max_retries \<Longrightarrow>
   \<forall>i. Invoke i None \<notin> set evs \<Longrightarrow> \<forall>i d. Wait i d CtxDone \<notin> set evs \<Longrightarrow>
   invocations evs = nat (max_retries + 1 - attempt) \<and>
   (\<exists>e. last evs = Invoke max_retries (Some e) \<and>
        r = Some (WrapError (retry_prefix max_retries) e))"
proof (induction attempt delay err w arbitrary: evs
    rule: retry_loop_induct [where max_retries = max_retries and handler = handler and c = c and msg = msg])
  case (again attempt delay err w e w1 w2)
  from again.hyps again.prems(1) obtain evs' where
    rec: "retry_loop c msg handler max_retries (attempt + 1) (delay * 2) (Some e) w2 = (r, evs', w')"
    and evs: "evs = Invoke attempt (Some e) # LogWarn attempt max_retries delay e #
       Wait attempt delay TimerFired # evs'"
    by (rule retry_loop_againE)
  from again.hyps(1) have le: "attempt + 1 \<le> max_retries" by simp
  then have n: "nat (max_retries + 1 - attempt) = Suc (nat (max_retries + 1 - (attempt + 1)))"
    by simp
  from evs again.prems(3,4) have "\<forall>i. Invoke i None \<notin> set evs'" "\<forall>i d. Wait i d CtxDone \<notin> set evs'"
    by simp_all
  from again.IH [OF rec le this] obtain e' where
    "invocations evs' = nat (max_retries + 1 - (attempt + 1))"
    "last evs' = Invoke max_retries (Some e')" "r = Some (WrapError (retry_prefix max_retries) e')"
    by blast
  moreover from retry_loop_head [OF le rec] have "evs' \<noteq> []" by auto
  ultimately show ?case using evs n by simp
qed (auto simp: retry_loop_exhausted retry_loop_success retry_loop_final retry_loop_abort)

lemma retry_loop_events:
  "retry_loop c msg handler max_retries attempt delay err w = (r, evs, w') \<Longrightarrow>
   list_all is_retry_event evs"
proof (induction attempt delay err w arbitrary: evs
    rule: retry_loop_induct [where max_retries = max_retries and handler = handler and c = c and msg = msg])
  case (again attempt delay err w e w1 w2)
  from again.hyps again.prems(1) obtain evs' where
    rec: "retry_loop c msg handler max_retries (attempt + 1) (delay * 2) (Some e) w2 = (r, evs', w')"
    and evs: "evs = Invoke attempt (Some e) # LogWarn attempt max_retries delay e #
       Wait attempt delay TimerFired # evs'"
    by (rule retry_loop_againE)
  with again.IH [OF rec] show ?case by simp
qed (auto simp: retry_loop_exhausted retry_loop_success retry_loop_final retry_loop_abort)

section \<open>The runs of the package's tests\<close>

text \<open>The engine with the constants of the dispatch loop, evaluated on the inputs above.\<close>

lemmas eval_defs = retryWithBackoff_def retry_loop.simps call_handler_def backoff_select_def
  maxRetries_def retryBaseDelay_def Second_def Errorf_w_def fmt_d_def fmt_nat.simps digit_char_def
  Background_def cancelled_ctx_def cancelled_later_def permanent_handler_def transient_handler_def
  ok_handler_def test_msg_def world0_def NewMessage_def Canceled_def retry_prefix_def

lemma run_permanent:
  "retryWithBackoff Background test_msg permanent_handler maxRetries retryBaseDelay world0 =
    (Some (WrapError ''events: handler failed after 3 retries: '' (ErrorString ''permanent error'')),
     [Invoke 1 (Some (ErrorString ''permanent error'')),
      LogWarn 1 3 1000000000 (ErrorString ''permanent error''),
      Wait 1 1000000000 TimerFired,
      Invoke 2 (Some (ErrorString ''permanent error'')),
      LogWarn 2 3 2000000000 (ErrorString ''permanent error''),
      Wait 2 2000000000 TimerFired,
      Invoke 3 (Some (ErrorString ''permanent error''))],
     world0\<lparr>clock := 3000000000, closure := 3\<rparr>)"
  by (simp add: eval_defs)

lemma run_cancelled:
  "retryWithBackoff cancelled_ctx test_msg permanent_handler maxRetries retryBaseDelay world0 =
    (Some Canceled,
     [Invoke 1 (Some (ErrorString ''permanent error'')),
      LogWarn 1 3 1000000000 (ErrorString ''permanent error''),
      Wait 1 1000000000 CtxDone],
     world0\<lparr>closure := 1\<rparr>)"
  by (simp add: eval_defs)

lemma run_cancelled_later:
  "retryWithBackoff cancelled_later test_msg permanent_handler maxRetries retryBaseDelay world0 =
    (Some Canceled,
     [Invoke 1 (Some (ErrorString ''permanent error'')),
      LogWarn 1 3 1000000000 (ErrorString ''permanent error''),
      Wait 1 1000000000 CtxDone],
     world0\<lparr>clock := 500000000, closure := 1\<rparr>)"
  by (simp add: eval_defs)

lemma run_transient:
  "retryWithBackoff Background test_msg transient_handler maxRetries retryBaseDelay world0 =
    (None,
     [Invoke 1 (Some (ErrorString ''transient error'')),
      LogWarn 1 3 1000000000 (ErrorString ''transient error''),
      Wait 1 1000000000 TimerFired,
      Invoke 2 (Some (ErrorString ''transient error'')),
      LogWarn 2 3 2000000000 (ErrorString ''transient error''),
      Wait 2 2000000000 TimerFired,
      Invoke 3 None],
     world0\<lparr>clock := 3000000000, closure := 3\<rparr>)"
  by (simp add: eval_defs)

lemma run_transient_cancelled:
  "retryWithBackoff cancelled_ctx test_msg transient_handler maxRetries retryBaseDelay world0 =
    (Some Canceled,
     [Invoke 1 (Some (ErrorString ''transient error'')),
      LogWarn 1 3 1000000000 (ErrorString ''transient error''),
      Wait 1 1000000000 CtxDone],
     world0\<lparr>closure := 1\<rparr>)"
  by (simp add: eval_defs)

lemma run_permanent_stamped:
  "retryWithBackoff Background test_msg (stamped permanent_handler) maxRetries retryBaseDelay
     (stamp [] world0) =
    (Some (WrapError ''events: handler failed after 3 retries: '' (ErrorString ''permanent error'')),
     [Invoke 1 (Some (ErrorString ''permanent error'')),
      LogWarn 1 3 1000000000 (ErrorString ''permanent error''),
      Wait 1 1000000000 TimerFired,
      Invoke 2 (Some (ErrorString ''permanent error'')),
      LogWarn 2 3 2000000000 (ErrorString ''permanent error''),
      Wait 2 2000000000 TimerFired,
      Invoke 3 (Some (ErrorString ''permanent error''))],
     stamp [(0, 0), (1000000000, 1000000000), (3000000000, 3000000000)]
       (world0\<lparr>clock := 3000000000, closure := 3\<rparr>))"
  by (simp add: eval_defs stamped_def stamp_def)

section \<open>Steps of the engine and of the dispatch loop\<close>

lemma backoff_select_done:
  assumes "done_at c = Some t" "max (clock w) t < clock w + nat (sint delay)"
  shows "backoff_select c delay w = (CtxDone, w\<lparr>clock := max (clock w) t\<rparr>)"
  using assms by (simp add: backoff_select_def Let_def)

lemma call_handler_clock:
  "call_handler handler c msg w = (x, w1) \<Longrightarrow> clock w \<le> clock w1"
  by (auto simp: call_handler_def split: prod.splits)

lemma retry_loop_first:
  assumes "attempt \<le> max_retries" "call_handler handler c msg w = (x, w1)"
  shows "\<exists>r rest w'. retry_loop c msg handler max_retries attempt delay err w =
    (r, Invoke attempt x # rest, w')"
proof (cases rule: retry_loop_cases [where max_retries = max_retries and attempt = attempt
      and handler = handler and c = c and msg = msg and w = w and delay = delay])
  case exhausted
  with assms show ?thesis by simp
next
  case (success w1')
  with assms show ?thesis by (auto simp: retry_loop_success)
next
  case (final e w1')
  with assms show ?thesis by (auto simp: retry_loop_final)
next
  case (abort e w1' w2)
  with assms show ?thesis by (auto simp: retry_loop_abort)
next
  case (again e w1' w2)
  obtain r evs' w3 where
    "retry_loop c msg handler max_retries (attempt + 1) (delay * 2) (Some e) w2 = (r, evs', w3)"
    by (cases "retry_loop c msg handler max_retries (attempt + 1) (delay * 2) (Some e) w2")
  with again assms show ?thesis by (auto simp: retry_loop_again)
qed

lemma sint_scaled:
  fixes b :: "64 word"
  assumes "0 \<le> sint b" "sint b * 2 ^ n < 2 ^ 63"
  shows "sint (b * 2 ^ n) = sint b * 2 ^ n"
proof -
  have "b * 2 ^ n = word_of_int (sint b * 2 ^ n)"
    by simp
  then have "sint (b * 2 ^ n) = signed_take_bit 63 (sint b * 2 ^ n)"
    by (simp only: sint_sbintrunc') simp
  also have "\<dots> = sint b * 2 ^ n"
  proof (rule signed_take_bit_int_eq_self)
    have "- (2 ^ 63) \<le> (0 :: int)" by simp
    also from assms(1) have "0 \<le> sint b * 2 ^ n" by simp
    finally show "- (2 ^ 63) \<le> sint b * 2 ^ n" .
    from assms(2) show "sint b * 2 ^ n < 2 ^ 63" .
  qed
  finally show ?thesis .
qed

lemma dispatch_msg_failure:
  assumes "retryWithBackoff (msg_ctx P c msg) msg handler maxRetries retryBaseDelay w = (Some err, evs, w')"
  shows "dispatch_msg P c topic handler msg (w, errCh) =
    (if length (buf errCh) < cap errCh
     then (evs @ [Nack (UUID msg), SendErr err], w', errCh\<lparr>buf := buf errCh @ [err]\<rparr>)
     else (evs @ [Nack (UUID msg), LogDropped err topic], w', errCh))"
  using assms by (simp add: dispatch_msg_def try_send_def)

lemma dispatch_msg_success:
  assumes "retryWithBackoff (msg_ctx P c msg) msg handler maxRetries retryBaseDelay w = (None, evs, w')"
  shows "dispatch_msg P c topic handler msg (w, errCh) = (evs @ [Ack (UUID msg)], w', errCh)"
  using assms by (simp add: dispatch_msg_def)

lemma msg_ctx_noop [simp]: "msg_ctx noop_propagator c msg = c"
  by (simp add: msg_ctx_def noop_propagator_def)

text \<open>A handler that counts its invocations, followed along the loop.\<close>

lemma call_handler_fields:
  assumes "call_handler handler c msg w = (x, w1)"
  shows "x = fst (handler c msg (clock w) (closure w))"
    "clock w1 = clock w + fst (snd (handler c msg (clock w) (closure w)))"
    "closure w1 = snd (snd (handler c msg (clock w) (closure w)))"
    "coins w1 = coins w" "flips w1 = flips w"
  using assms by (auto simp: call_handler_def split: prod.splits)

lemma backoff_select_closure:
  "backoff_select c delay w1 = (s, w2) \<Longrightarrow> closure w2 = closure w1"
  by (auto simp: backoff_select_def Let_def split: option.splits if_splits)

lemma retry_loop_counted:
  assumes count: "\<forall>c m t h. calls (snd (snd (handler c m t h))) = calls h + 1"
    and fails: "\<forall>c m t h. int (calls h) + 1 < k \<longrightarrow> fst (handler c m t h) \<noteq> None"
    and succeeds: "\<forall>c m t h. int (calls h) + 1 = k \<longrightarrow> fst (handler c m t h) = None"
    and k: "k \<le> max_retries"
  shows "retry_loop c msg handler max_retries attempt delay err w = (r, evs, w') \<Longrightarrow>
    int (calls (closure w)) + 1 = attempt \<Longrightarrow> attempt \<le> k \<Longrightarrow>
    \<forall>i d. Wait i d CtxDone \<notin> set evs \<Longrightarrow>
    Invoke k None \<in> set evs \<and> int (calls (closure w')) = k"
proof (induction attempt delay err w arbitrary: evs
    rule: retry_loop_induct [where max_retries = max_retries and handler = handler and c = c and msg = msg])
  case (exhausted attempt delay err w)
  with k show ?case by simp
next
  case (success attempt delay err w w1)
  from call_handler_fields [OF success.hyps(2)] count
  have x: "None = fst (handler c msg (clock w) (closure w))"
    and h: "calls (closure w1) = calls (closure w) + 1"
    by simp_all
  from fails x have "\<not> int (calls (closure w)) + 1 < k" by metis
  with success.prems(2,3) have "attempt = k" by simp
  with success h show ?case by (auto simp: retry_loop_success)
next
  case (final attempt delay err w e w1)
  from call_handler_fields(1) [OF final.hyps(2)]
  have x: "Some e = fst (handler c msg (clock w) (closure w))" .
  from final.hyps(1) final.prems(3) k have "attempt = k" by simp
  with final.prems(2) succeeds have "fst (handler c msg (clock w) (closure w)) = None" by blast
  with x show ?case by simp
next
  case (abort attempt delay err w e w1 w2)
  then show ?case by (auto simp: retry_loop_abort)
next
  case (again attempt delay err w e w1 w2)
  from again.hyps again.prems(1) obtain evs' where
    rec: "retry_loop c msg handler max_retries (attempt + 1) (delay * 2) (Some e) w2 = (r, evs', w')"
    and evs: "evs = Invoke attempt (Some e) # LogWarn attempt max_retries delay e #
       Wait attempt delay TimerFired # evs'"
    by (rule retry_loop_againE)
  from call_handler_fields [OF again.hyps(2)] count
  have x: "Some e = fst (handler c msg (clock w) (closure w))"
    and h: "calls (closure w1) = calls (closure w) + 1"
    by simp_all
  from succeeds x have "int (calls (closure w)) + 1 \<noteq> k" by (metis option.distinct(1))
  with again.prems(2,3) have le: "attempt + 1 \<le> k" by simp
  from backoff_select_closure [OF again.hyps(3)] h again.prems(2)
  have c2: "int (calls (closure w2)) + 1 = attempt + 1" by simp
  from evs again.prems(4) have "\<forall>i d. Wait i d CtxDone \<notin> set evs'" by simp
  from again.IH [OF rec c2 le this] evs show ?case by simp
qed

text \<open>The run of a handler that notes the instants of its calls.\<close>

lemma call_handler_stamped:
  "call_handler handler c msg w = (x, w1) \<Longrightarrow>
   call_handler (stamped handler) c msg (stamp stamps w) =
     (x, stamp (stamps @ [(clock w, clock w1)]) w1)"
  by (auto simp: call_handler_def stamped_def stamp_def split: prod.splits)

lemma backoff_select_stamped:
  "backoff_select c delay w1 = (s, w2) \<Longrightarrow>
   backoff_select c delay (stamp stamps w1) = (s, stamp stamps w2)"
  by (auto simp: backoff_select_def stamp_def Let_def split: option.splits if_splits)

lemma backoff_select_fires:
  fixes delay :: duration
  assumes "done_at c = None \<or> (\<exists>t. done_at c = Some t \<and> clock w + nat (sint delay) < t)"
  shows "backoff_select c delay w = (TimerFired, w\<lparr>clock := clock w + nat (sint delay)\<rparr>)"
  using assms by (auto simp: backoff_select_def Let_def)

lemma backoff_select_timer:
  "backoff_select c delay w1 = (TimerFired, w2) \<Longrightarrow> clock w2 = clock w1 + nat (sint delay)"
  by (auto simp: backoff_select_def Let_def split: option.splits if_splits)

lemma retry_loop_stamped:
  "retry_loop c msg handler max_retries attempt delay err w = (r, evs, w') \<Longrightarrow>
   \<exists>new. retry_loop c msg (stamped handler) max_retries attempt delay err (stamp stamps w) =
            (r, evs, stamp (stamps @ new) w') \<and>
          length new = invocations evs \<and>
          (new \<noteq> [] \<longrightarrow> fst (hd new) = clock w) \<and>
          (\<forall>j. Suc j < length new \<longrightarrow>
             fst (new ! Suc j) = snd (new ! j) + nat (sint (delay * 2 ^ j))) \<and>
          ((\<forall>i d. Wait i d CtxDone \<notin> set evs) \<and> new \<noteq> [] \<longrightarrow> clock w' = snd (last new))"
proof (induction attempt delay err w arbitrary: evs stamps
    rule: retry_loop_induct [where max_retries = max_retries and handler = handler and c = c and msg = msg])
  case (exhausted attempt delay err w)
  then have "evs = []" "w' = w" "r = Some (Errorf_w (retry_prefix max_retries) err)"
    by (simp_all add: retry_loop_exhausted)
  with exhausted.hyps have "retry_loop c msg (stamped handler) max_retries attempt delay err (stamp stamps w) =
            (r, evs, stamp (stamps @ []) w') \<and> length ([] :: (nat \<times> nat) list) = invocations evs"
    by (simp add: retry_loop_exhausted)
  then show ?case by (intro exI [of _ "[]"]) simp
next
  case (success attempt delay err w w1)
  then have res: "evs = [Invoke attempt None]" "w' = w1" "r = None"
    by (simp_all add: retry_loop_success)
  from call_handler_stamped [OF success.hyps(2), of stamps] success.hyps(1) res
  have "retry_loop c msg (stamped handler) max_retries attempt delay err (stamp stamps w) =
            (r, evs, stamp (stamps @ [(clock w, clock w1)]) w')"
    by (simp add: retry_loop_success)
  with res show ?case by (intro exI [of _ "[(clock w, clock w1)]"]) simp
next
  case (final attempt delay err w e w1)
  then have res: "evs = [Invoke attempt (Some e)]" "w' = w1"
    "r = Some (WrapError (retry_prefix max_retries) e)"
    by (simp_all add: retry_loop_final)
  from call_handler_stamped [OF final.hyps(2), of stamps] final.hyps(1) res
  have "retry_loop c msg (stamped handler) max_retries attempt delay err (stamp stamps w) =
            (r, evs, stamp (stamps @ [(clock w, clock w1)]) w')"
    by (simp add: retry_loop_final)
  with res show ?case by (intro exI [of _ "[(clock w, clock w1)]"]) simp
next
  case (abort attempt delay err w e w1 w2)
  then have res: "evs = [Invoke attempt (Some e), LogWarn attempt max_retries delay e,
      Wait attempt delay CtxDone]" "w' = w2" "r = Some (ctx_err c)"
    by (simp_all add: retry_loop_abort)
  from call_handler_stamped [OF abort.hyps(2), of stamps]
    backoff_select_stamped [OF abort.hyps(3), of "stamps @ [(clock w, clock w1)]"]
    abort.hyps(1) res
  have "retry_loop c msg (stamped handler) max_retries attempt delay err (stamp stamps w) =
            (r, evs, stamp (stamps @ [(clock w, clock w1)]) w')"
    by (simp add: retry_loop_abort)
  with res show ?case by (intro exI [of _ "[(clock w, clock w1)]"]) simp
next
  case (again attempt delay err w e w1 w2)
  from again.hyps again.prems(1) obtain evs' where
    rec: "retry_loop c msg handler max_retries (attempt + 1) (delay * 2) (Some e) w2 = (r, evs', w')"
    and evs: "evs = Invoke attempt (Some e) # LogWarn attempt max_retries delay e #
       Wait attempt delay TimerFired # evs'"
    by (rule retry_loop_againE)
  from again.IH [OF rec, of "stamps @ [(clock w, clock w1)]"] obtain new where
    run: "retry_loop c msg (stamped handler) max_retries (attempt + 1) (delay * 2) (Some e)
        (stamp (stamps @ [(clock w, clock w1)]) w2) =
      (r, evs', stamp ((stamps @ [(clock w, clock w1)]) @ new) w')"
    and len: "length new = invocations evs'"
    and first: "new \<noteq> [] \<longrightarrow> fst (hd new) = clock w2"
    and gaps: "\<forall>j. Suc j < length new \<longrightarrow>
             fst (new ! Suc j) = snd (new ! j) + nat (sint (delay * 2 * 2 ^ j))"
    and fin: "(\<forall>i d. Wait i d CtxDone \<notin> set evs') \<and> new \<noteq> [] \<longrightarrow> clock w' = snd (last new)"
    by blast
  from again.hyps(1) have "attempt + 1 \<le> max_retries" by simp
  from retry_loop_head [OF this rec] len have ne: "new \<noteq> []" by auto
  let ?new = "(clock w, clock w1) # new"
  from call_handler_stamped [OF again.hyps(2), of stamps]
    backoff_select_stamped [OF again.hyps(3), of "stamps @ [(clock w, clock w1)]"]
    again.hyps(1) run evs
  have 1: "retry_loop c msg (stamped handler) max_retries attempt delay err (stamp stamps w) =
      (r, evs, stamp (stamps @ ?new) w')"
    by (simp add: retry_loop_again)
  from len evs have 2: "length ?new = invocations evs" by simp
  have 3: "\<forall>j. Suc j < length ?new \<longrightarrow>
      fst (?new ! Suc j) = snd (?new ! j) + nat (sint (delay * 2 ^ j))"
  proof (intro allI impI)
    fix j
    assume j: "Suc j < length ?new"
    show "fst (?new ! Suc j) = snd (?new ! j) + nat (sint (delay * 2 ^ j))"
    proof (cases j)
      case 0
      from ne first have "fst (new ! 0) = clock w2" by (simp add: hd_conv_nth)
      with backoff_select_timer [OF again.hyps(3)] 0 show ?thesis by simp
    next
      case (Suc j')
      with j gaps show ?thesis by (simp add: mult.assoc)
    qed
  qed
  from fin ne evs have 4: "(\<forall>i d. Wait i d CtxDone \<notin> set evs) \<and> ?new \<noteq> [] \<longrightarrow>
      clock w' = snd (last ?new)"
    by simp
  from 1 2 3 4 show ?case by (intro exI [of _ ?new]) simp
qed

lemma retry_loop_failed_waits:
  "retry_loop c msg handler max_retries attempt delay err w = (r, evs, w') \<Longrightarrow>
   Invoke i (Some e) \<in> set evs \<Longrightarrow> i < max_retries \<Longrightarrow>
   \<exists>s. Wait i (delay * 2 ^ nat (i - attempt)) s \<in> set evs"
proof (induction attempt delay err w arbitrary: evs
    rule: retry_loop_induct [where max_retries = max_retries and handler = handler and c = c and msg = msg])
  case (again attempt delay err w e' w1 w2)
  from again.hyps again.prems(1) obtain evs' where
    rec: "retry_loop c msg handler max_retries (attempt + 1) (delay * 2) (Some e') w2 = (r, evs', w')"
    and evs: "evs = Invoke attempt (Some e') # LogWarn attempt max_retries delay e' #
       Wait attempt delay TimerFired # evs'"
    by (rule retry_loop_againE)
  show ?case
  proof (cases "Invoke i (Some e) \<in> set evs'")
    case True
    from retry_loop_invoke_range [OF rec True] have "attempt + 1 \<le> i" by simp
    then have "nat (i - attempt) = Suc (nat (i - (attempt + 1)))" by simp
    with again.IH [OF rec True again.prems(3)] evs show ?thesis by (auto simp: mult.assoc)
  next
    case False
    with evs again.prems(2) have "i = attempt" by simp
    with evs show ?thesis by auto
  qed
qed (auto simp: retry_loop_exhausted retry_loop_success retry_loop_final retry_loop_abort)

lemma retry_loop_wait_followed:
  "retry_loop c msg handler max_retries attempt delay err w = (r, evs, w') \<Longrightarrow>
   Wait i d TimerFired \<in> set evs \<Longrightarrow> \<exists>x. Invoke (i + 1) x \<in> set evs"
proof (induction attempt delay err w arbitrary: evs
    rule: retry_loop_induct [where max_retries = max_retries and handler = handler and c = c and msg = msg])
  case (again attempt delay err w e w1 w2)
  from again.hyps again.prems(1) obtain evs' where
    rec: "retry_loop c msg handler max_retries (attempt + 1) (delay * 2) (Some e) w2 = (r, evs', w')"
    and evs: "evs = Invoke attempt (Some e) # LogWarn attempt max_retries delay e #
       Wait attempt delay TimerFired # evs'"
    by (rule retry_loop_againE)
  show ?case
  proof (cases "Wait i d TimerFired \<in> set evs'")
    case True
    with again.IH [OF rec] evs show ?thesis by auto
  next
    case False
    with evs again.prems(2) have i: "i = attempt" by simp
    from again.hyps(1) have "attempt + 1 \<le> max_retries" by simp
    from retry_loop_head [OF this rec] obtain x rest where "evs' = Invoke (attempt + 1) x # rest"
      by blast
    with evs i show ?thesis by auto
  qed
qed (auto simp: retry_loop_exhausted retry_loop_success retry_loop_final retry_loop_abort)

section \<open>Exhausted retries\<close>

text \<open>
  Claim C1, amended.  A handler that returns an error on every invocation, run by
  \<^verbatim>\<open>retryWithBackoff\<close> with a maximum attempt count of at least one, in a run none
  of whose backoff waits is ended by the cancellation of the context: the handler is
  invoked exactly the maximum attempt count times, the last event of the run is the final
  invocation, and the result is the error of that invocation wrapped with the attempt
  count.  The dispatch loop, which runs the engine with \<open>maxRetries\<close> and
  \<open>retryBaseDelay\<close> on the context extracted from the message, then Nacks the message
  and never Acks it (the engine's events are invocations, warnings and waits); it sends
  the wrapped error on the error channel when the channel has room, and logs and drops
  it when the channel is full.
\<close>

theorem failing_handler_exhausts_retries:
  assumes "\<forall>c m t h. fst (handler c m t h) \<noteq> None"
    and "1 \<le> max_retries"
    and "retryWithBackoff c msg handler max_retries base_delay w = (r, evs, w')"
    and "\<forall>i d. Wait i d CtxDone \<notin> set evs"
  shows "invocations evs = nat max_retries \<and> list_all is_retry_event evs \<and>
         (\<exists>e. last evs = Invoke max_retries (Some e) \<and>
              r = Some (WrapError (retry_prefix max_retries) e) \<and>
              (\<forall>P c0 topic errCh.
                 c = msg_ctx P c0 msg \<and> max_retries = maxRetries \<and> base_delay = retryBaseDelay \<longrightarrow>
                 dispatch_msg P c0 topic handler msg (w, errCh) =
                   (if length (buf errCh) < cap errCh
                    then (evs @ [Nack (UUID msg), SendErr (WrapError (retry_prefix maxRetries) e)], w',
                          errCh\<lparr>buf := buf errCh @ [WrapError (retry_prefix maxRetries) e]\<rparr>)
                    else (evs @ [Nack (UUID msg),
                            LogDropped (WrapError (retry_prefix maxRetries) e) topic], w', errCh))))"
proof -
  from assms(3) have run: "retry_loop c msg handler max_retries 1 base_delay None w = (r, evs, w')"
    by (simp add: retryWithBackoff_def)
  have nosucc: "\<forall>i. Invoke i None \<notin> set evs"
  proof (intro allI notI)
    fix i
    assume "Invoke i None \<in> set evs"
    from retry_loop_invoke_result [OF run this] assms(1) show False by metis
  qed
  from retry_loop_all_fail [OF run assms(2) nosucc assms(4)] obtain e where
    n: "invocations evs = nat (max_retries + 1 - 1)"
    and e: "last evs = Invoke max_retries (Some e)" "r = Some (WrapError (retry_prefix max_retries) e)"
    by blast
  from run have ev: "list_all is_retry_event evs" by (rule retry_loop_events)
  from assms(3) e(2) have
    "\<forall>P c0 topic errCh.
       c = msg_ctx P c0 msg \<and> max_retries = maxRetries \<and> base_delay = retryBaseDelay \<longrightarrow>
       dispatch_msg P c0 topic handler msg (w, errCh) =
         (if length (buf errCh) < cap errCh
          then (evs @ [Nack (UUID msg), SendErr (WrapError (retry_prefix maxRetries) e)], w',
                errCh\<lparr>buf := buf errCh @ [WrapError (retry_prefix maxRetries) e]\<rparr>)
          else (evs @ [Nack (UUID msg),
                  LogDropped (WrapError (retry_prefix maxRetries) e) topic], w', errCh))"
    by (auto simp: dispatch_msg_failure)
  with n e ev show ?thesis by auto
qed

theorem failing_handler_exhausts_retries_witness:
  "dispatch_msg noop_propagator Background ''item.created'' permanent_handler test_msg
     (world0, make_chan 100) =
     ([Invoke 1 (Some (ErrorString ''permanent error'')),
       LogWarn 1 3 1000000000 (ErrorString ''permanent error''),
       Wait 1 1000000000 TimerFired,
       Invoke 2 (Some (ErrorString ''permanent error'')),
       LogWarn 2 3 2000000000 (ErrorString ''permanent error''),
       Wait 2 2000000000 TimerFired,
       Invoke 3 (Some (ErrorString ''permanent error'')),
       Nack ''id'',
       SendErr (WrapError ''events: handler failed after 3 retries: '' (ErrorString ''permanent error''))],
      world0\<lparr>clock := 3000000000, closure := 3\<rparr>,
      (make_chan 100)\<lparr>buf :=
         [WrapError ''events: handler failed after 3 retries: '' (ErrorString ''permanent error'')]\<rparr>)"
proof -
  have a: "\<forall>c m t h. fst (permanent_handler c m t h) \<noteq> None"
    by (simp add: permanent_handler_def)
  have b: "1 \<le> maxRetries" by (simp add: maxRetries_def)
  have c: "\<forall>i d. Wait i d CtxDone \<notin> set
     [Invoke 1 (Some (ErrorString ''permanent error'')),
       LogWarn 1 3 1000000000 (ErrorString ''permanent error''),
       Wait 1 1000000000 TimerFired,
       Invoke 2 (Some (ErrorString ''permanent error'')),
       LogWarn 2 3 2000000000 (ErrorString ''permanent error''),
       Wait 2 2000000000 TimerFired,
       Invoke 3 (Some (ErrorString ''permanent error''))]"
    by simp
  from failing_handler_exhausts_retries [OF a b run_permanent c] obtain e where
    e: "last [Invoke 1 (Some (ErrorString ''permanent error'')),
       LogWarn 1 3 1000000000 (ErrorString ''permanent error''),
       Wait 1 1000000000 TimerFired,
       Invoke 2 (Some (ErrorString ''permanent error'')),
       LogWarn 2 3 2000000000 (ErrorString ''permanent error''),
       Wait 2 2000000000 TimerFired,
       Invoke 3 (Some (ErrorString ''permanent error''))] = Invoke maxRetries (Some e)"
    and d: "\<forall>P c0 topic errCh.
      Background = msg_ctx P c0 test_msg \<and> maxRetries = maxRetries \<and> retryBaseDelay = retryBaseDelay \<longrightarrow>
      dispatch_msg P c0 topic permanent_handler test_msg (world0, errCh) =
         (if length (buf errCh) < cap errCh
          then ([Invoke 1 (Some (ErrorString ''permanent error'')),
       LogWarn 1 3 1000000000 (ErrorString ''permanent error''),
       Wait 1 1000000000 TimerFired,
       Invoke 2 (Some (ErrorString ''permanent error'')),
       LogWarn 2 3 2000000000 (ErrorString ''permanent error''),
       Wait 2 2000000000 TimerFired,
       Invoke 3 (Some (ErrorString ''permanent error''))] @
              [Nack (UUID test_msg), SendErr (WrapError (retry_prefix maxRetries) e)],
              world0\<lparr>clock := 3000000000, closure := 3\<rparr>,
                errCh\<lparr>buf := buf errCh @ [WrapError (retry_prefix maxRetries) e]\<rparr>)
          else ([Invoke 1 (Some (ErrorString ''permanent error'')),
       LogWarn 1 3 1000000000 (ErrorString ''permanent error''),
       Wait 1 1000000000 TimerFired,
       Invoke 2 (Some (ErrorString ''permanent error'')),
       LogWarn 2 3 2000000000 (ErrorString ''permanent error''),
       Wait 2 2000000000 TimerFired,
       Invoke 3 (Some (ErrorString ''permanent error''))] @ [Nack (UUID test_msg),
                  LogDropped (WrapError (retry_prefix maxRetries) e) topic],
                  world0\<lparr>clock := 3000000000, closure := 3\<rparr>, errCh))"
    by blast
  from e have "e = ErrorString ''permanent error''" by simp
  with d [rule_format, of noop_propagator Background "''item.created''" "make_chan 100"]
  show ?thesis
    by (simp add: test_msg_def NewMessage_def make_chan_def retry_prefix_def maxRetries_def
        fmt_d_def fmt_nat.simps digit_char_def)
qed

text \<open>
  The claim as stated fails in both respects.  Under a context that is already
  cancelled the handler that always fails is invoked once, not three times, and the
  error that reaches the channel is the context's; and with a full error channel the
  wrapped error of the third attempt is logged and dropped, not sent.
\<close>

theorem failing_handler_counterexample:
  "fst (retryWithBackoff cancelled_ctx test_msg permanent_handler maxRetries retryBaseDelay world0) =
     Some Canceled \<and>
   invocations (fst (snd (retryWithBackoff cancelled_ctx test_msg permanent_handler maxRetries
     retryBaseDelay world0))) = 1 \<and>
   nat maxRetries = 3 \<and>
   fst (dispatch_msg noop_propagator cancelled_ctx ''item.created'' permanent_handler test_msg
     (world0, make_chan 100)) =
     [Invoke 1 (Some (ErrorString ''permanent error'')),
      LogWarn 1 3 1000000000 (ErrorString ''permanent error''),
      Wait 1 1000000000 CtxDone,
      Nack ''id'',
      SendErr Canceled] \<and>
   dispatch_msg noop_propagator Background ''item.created'' permanent_handler test_msg
     (world0, full_chan) =
     ([Invoke 1 (Some (ErrorString ''permanent error'')),
       LogWarn 1 3 1000000000 (ErrorString ''permanent error''),
       Wait 1 1000000000 TimerFired,
       Invoke 2 (Some (ErrorString ''permanent error'')),
       LogWarn 2 3 2000000000 (ErrorString ''permanent error''),
       Wait 2 2000000000 TimerFired,
       Invoke 3 (Some (ErrorString ''permanent error'')),
       Nack ''id'',
       LogDropped (WrapError ''events: handler failed after 3 retries: ''
         (ErrorString ''permanent error'')) ''item.created''],
      world0\<lparr>clock := 3000000000, closure := 3\<rparr>, full_chan)"
proof -
  have u: "UUID test_msg = ''id''" by (simp add: test_msg_def NewMessage_def)
  have n: "nat maxRetries = 3" by (simp add: maxRetries_def)
  show ?thesis
    by (simp add: dispatch_msg_def run_cancelled run_permanent try_send_def full_chan_def
        make_chan_def u n)
qed

section \<open>Success on a later attempt\<close>

text \<open>
  Claim C2, amended.  A handler that counts its invocations (\<open>calls\<close> reads the count
  from the state it captured, as the variable \<^verbatim>\<open>calls\<close> of the handlers in
  \<^verbatim>\<open>watermill_test.go\<close>) and that returns an error on every invocation before the
  \<open>k\<close>-th and success on the \<open>k\<close>-th, with \<open>k\<close> between one and the maximum
  attempt count, is run by \<^verbatim>\<open>retryWithBackoff\<close> from a state in which it has not
  been invoked.  In a run none of whose backoff waits is ended by the cancellation of the
  context, the handler is invoked exactly \<open>k\<close> times (the events and its own count
  agree), every invocation before the \<open>k\<close>-th returned an error and was retried, the
  successful invocation is the last event of the run, and the engine returns
  \<^verbatim>\<open>nil\<close>.  The dispatch loop then Acks the message and leaves the error channel as
  it was.
\<close>

theorem success_on_attempt_k_acks:
  assumes "\<forall>c m t h. calls (snd (snd (handler c m t h))) = calls h + 1"
    and "\<forall>c m t h. int (calls h) + 1 < k \<longrightarrow> fst (handler c m t h) \<noteq> None"
    and "\<forall>c m t h. int (calls h) + 1 = k \<longrightarrow> fst (handler c m t h) = None"
    and "calls (closure w) = 0"
    and "1 \<le> k" and "k \<le> max_retries"
    and "retryWithBackoff c msg handler max_retries base_delay w = (r, evs, w')"
    and "\<forall>i d. Wait i d CtxDone \<notin> set evs"
  shows "invocations evs = nat k \<and> int (calls (closure w')) = k \<and> r = None \<and>
         last evs = Invoke k None \<and>
         (\<forall>j y. Invoke j y \<in> set evs \<and> j < k \<longrightarrow> y \<noteq> None) \<and>
         list_all is_retry_event evs \<and>
         (\<forall>P c0 topic errCh.
            c = msg_ctx P c0 msg \<and> max_retries = maxRetries \<and> base_delay = retryBaseDelay \<longrightarrow>
            dispatch_msg P c0 topic handler msg (w, errCh) = (evs @ [Ack (UUID msg)], w', errCh))"
proof -
  from assms(7) have run: "retry_loop c msg handler max_retries 1 base_delay None w = (r, evs, w')"
    by (simp add: retryWithBackoff_def)
  from assms(4) have start: "int (calls (closure w)) + 1 = 1" by simp
  from retry_loop_counted [OF assms(1,2,3,6) run start assms(5,8)]
  have mem: "Invoke k None \<in> set evs" and cnt: "int (calls (closure w')) = k" by simp_all
  from retry_loop_success_run [OF run mem]
  have s: "r = None" "last evs = Invoke k None" "invocations evs = nat (k + 1 - 1)"
    "\<forall>j y. Invoke j y \<in> set evs \<longrightarrow> j < k \<longrightarrow> y \<noteq> None"
    by simp_all
  from run have ev: "list_all is_retry_event evs" by (rule retry_loop_events)
  from assms(7) s(1) have d:
    "\<forall>P c0 topic errCh.
        c = msg_ctx P c0 msg \<and> max_retries = maxRetries \<and> base_delay = retryBaseDelay \<longrightarrow>
        dispatch_msg P c0 topic handler msg (w, errCh) = (evs @ [Ack (UUID msg)], w', errCh)"
    by (auto simp: dispatch_msg_success)
  from s ev cnt have "invocations evs = nat k \<and> int (calls (closure w')) = k \<and> r = None \<and>
      last evs = Invoke k None \<and>
      (\<forall>j y. Invoke j y \<in> set evs \<and> j < k \<longrightarrow> y \<noteq> None) \<and> list_all is_retry_event evs"
    by auto
  with d show ?thesis by blast
qed

theorem success_on_attempt_k_acks_witness:
  "dispatch_msg noop_propagator Background ''item.created'' transient_handler test_msg
     (world0, make_chan 100) =
     ([Invoke 1 (Some (ErrorString ''transient error'')),
       LogWarn 1 3 1000000000 (ErrorString ''transient error''),
       Wait 1 1000000000 TimerFired,
       Invoke 2 (Some (ErrorString ''transient error'')),
       LogWarn 2 3 2000000000 (ErrorString ''transient error''),
       Wait 2 2000000000 TimerFired,
       Invoke 3 None,
       Ack ''id''],
      world0\<lparr>clock := 3000000000, closure := 3\<rparr>, make_chan 100) \<and>
   invocations
     [Invoke 1 (Some (ErrorString ''transient error'')),
       LogWarn 1 3 1000000000 (ErrorString ''transient error''),
       Wait 1 1000000000 TimerFired,
       Invoke 2 (Some (ErrorString ''transient error'')),
       LogWarn 2 3 2000000000 (ErrorString ''transient error''),
       Wait 2 2000000000 TimerFired,
       Invoke 3 None] = nat 3"
proof -
  have a: "\<forall>c m t h. (\<lambda>n. n) (snd (snd (transient_handler c m t h))) = (\<lambda>n. n) h + 1"
    by (simp add: transient_handler_def)
  have b: "\<forall>c m t h. int ((\<lambda>n. n) h) + 1 < 3 \<longrightarrow> fst (transient_handler c m t h) \<noteq> None"
    by (simp add: transient_handler_def)
  have c: "\<forall>c m t h. int ((\<lambda>n. n) h) + 1 = 3 \<longrightarrow> fst (transient_handler c m t h) = None"
    by (simp add: transient_handler_def)
  have d: "(\<lambda>n. n) (closure world0) = 0" by (simp add: world0_def)
  have e: "(1 :: int) \<le> 3" "3 \<le> maxRetries" by (simp_all add: maxRetries_def)
  have f: "\<forall>i d. Wait i d CtxDone \<notin> set
     [Invoke 1 (Some (ErrorString ''transient error'')),
       LogWarn 1 3 1000000000 (ErrorString ''transient error''),
       Wait 1 1000000000 TimerFired,
       Invoke 2 (Some (ErrorString ''transient error'')),
       LogWarn 2 3 2000000000 (ErrorString ''transient error''),
       Wait 2 2000000000 TimerFired,
       Invoke 3 None]"
    by simp
  note t = success_on_attempt_k_acks [OF a b c d e run_transient f]
  from t have n: "invocations
     [Invoke 1 (Some (ErrorString ''transient error'')),
       LogWarn 1 3 1000000000 (ErrorString ''transient error''),
       Wait 1 1000000000 TimerFired,
       Invoke 2 (Some (ErrorString ''transient error'')),
       LogWarn 2 3 2000000000 (ErrorString ''transient error''),
       Wait 2 2000000000 TimerFired,
       Invoke 3 None] = nat 3"
    by blast
  from t have "\<forall>P c0 topic errCh.
      Background = msg_ctx P c0 test_msg \<and> maxRetries = maxRetries \<and> retryBaseDelay = retryBaseDelay \<longrightarrow>
      dispatch_msg P c0 topic transient_handler test_msg (world0, errCh) =
        ([Invoke 1 (Some (ErrorString ''transient error'')),
       LogWarn 1 3 1000000000 (ErrorString ''transient error''),
       Wait 1 1000000000 TimerFired,
       Invoke 2 (Some (ErrorString ''transient error'')),
       LogWarn 2 3 2000000000 (ErrorString ''transient error''),
       Wait 2 2000000000 TimerFired,
       Invoke 3 None] @ [Ack (UUID test_msg)], world0\<lparr>clock := 3000000000, closure := 3\<rparr>, errCh)"
    by blast
  from this [rule_format, of noop_propagator Background "''item.created''" "make_chan 100"] n
  show ?thesis by (simp add: test_msg_def NewMessage_def)
qed

text \<open>
  The claim as stated fails.  The handler of
  \<^verbatim>\<open>TestRetryWithBackoff_SuccessAfterRetries\<close> first returns success on its third
  invocation, and three is the maximum attempt count; under a context that is already
  cancelled it is invoked once, the engine returns the context's error, and the dispatch
  loop Nacks the message and sends that error.
\<close>

theorem success_on_attempt_k_counterexample:
  "fst (transient_handler cancelled_ctx test_msg 0 0) \<noteq> None \<and>
   fst (transient_handler cancelled_ctx test_msg 0 1) \<noteq> None \<and>
   fst (transient_handler cancelled_ctx test_msg 0 2) = None \<and>
   3 \<le> maxRetries \<and>
   retryWithBackoff cancelled_ctx test_msg transient_handler maxRetries retryBaseDelay world0 =
     (Some Canceled,
      [Invoke 1 (Some (ErrorString ''transient error'')),
       LogWarn 1 3 1000000000 (ErrorString ''transient error''),
       Wait 1 1000000000 CtxDone],
      world0\<lparr>closure := 1\<rparr>) \<and>
   invocations (fst (snd (retryWithBackoff cancelled_ctx test_msg transient_handler maxRetries
     retryBaseDelay world0))) = 1 \<and>
   dispatch_msg noop_propagator cancelled_ctx ''item.created'' transient_handler test_msg
     (world0, make_chan 100) =
     ([Invoke 1 (Some (ErrorString ''transient error'')),
       LogWarn 1 3 1000000000 (ErrorString ''transient error''),
       Wait 1 1000000000 CtxDone,
       Nack ''id'',
       SendErr Canceled],
      world0\<lparr>closure := 1\<rparr>, (make_chan 100)\<lparr>buf := [Canceled]\<rparr>)"
proof -
  have u: "UUID test_msg = ''id''" by (simp add: test_msg_def NewMessage_def)
  have h: "fst (transient_handler cancelled_ctx test_msg 0 0) \<noteq> None"
    "fst (transient_handler cancelled_ctx test_msg 0 1) \<noteq> None"
    "fst (transient_handler cancelled_ctx test_msg 0 2) = None"
    "3 \<le> maxRetries"
    by (simp_all add: transient_handler_def maxRetries_def)
  have r: "invocations (fst (snd (retryWithBackoff cancelled_ctx test_msg transient_handler maxRetries
     retryBaseDelay world0))) = 1"
    by (simp add: run_transient_cancelled)
  have d: "dispatch_msg noop_propagator cancelled_ctx ''item.created'' transient_handler test_msg
     (world0, make_chan 100) =
     ([Invoke 1 (Some (ErrorString ''transient error'')),
       LogWarn 1 3 1000000000 (ErrorString ''transient error''),
       Wait 1 1000000000 CtxDone,
       Nack ''id'',
       SendErr Canceled],
      world0\<lparr>closure := 1\<rparr>, (make_chan 100)\<lparr>buf := [Canceled]\<rparr>)"
    by (simp add: dispatch_msg_def run_transient_cancelled try_send_def make_chan_def u)
  from h run_transient_cancelled r d show ?thesis by blast
qed

section \<open>Cancellation\<close>

text \<open>
  Claim C3.  At any iteration of the loop whose attempt fails and is not the last: if
  \<^verbatim>\<open>ctx.Done()\<close> is closed before the timer of the backoff wait fires (the context
  was cancelled earlier, or is cancelled during the wait), the engine returns the
  context's error, and the events from this iteration on are the one invocation already
  made, its warning and the interrupted wait: no invocation follows.  At the first
  iteration this is \<^verbatim>\<open>retryWithBackoff\<close> itself: cancelling before the first backoff
  wait completes gives exactly one invocation.  And in every run, a wait after attempt
  \<open>i\<close> that is ended by \<^verbatim>\<open>ctx.Done()\<close> is the last event: the handler has been invoked
  \<open>i\<close> times and the result is the context's error.
\<close>

theorem cancellation_during_backoff_aborts:
  "(attempt < max_retries \<and> call_handler handler c msg w = (Some e, w1) \<and>
    done_at c = Some t \<and> max (clock w1) t < clock w1 + nat (sint delay) \<longrightarrow>
      retry_loop c msg handler max_retries attempt delay err w =
        (Some (ctx_err c),
         [Invoke attempt (Some e), LogWarn attempt max_retries delay e, Wait attempt delay CtxDone],
         w1\<lparr>clock := max (clock w1) t\<rparr>) \<and>
      (attempt = 1 \<and> err = None \<longrightarrow>
         retryWithBackoff c msg handler max_retries delay w =
           (Some (ctx_err c),
            [Invoke 1 (Some e), LogWarn 1 max_retries delay e, Wait 1 delay CtxDone],
            w1\<lparr>clock := max (clock w1) t\<rparr>) \<and>
         invocations [Invoke 1 (Some e), LogWarn 1 max_retries delay e, Wait 1 delay CtxDone] = 1)) \<and>
   (retryWithBackoff c msg handler max_retries base_delay w = (r, evs, w') \<and>
    Wait i d CtxDone \<in> set evs \<longrightarrow>
      r = Some (ctx_err c) \<and> last evs = Wait i d CtxDone \<and> invocations evs = nat i)"
proof (intro conjI impI)
  assume a: "attempt < max_retries \<and> call_handler handler c msg w = (Some e, w1) \<and>
    done_at c = Some t \<and> max (clock w1) t < clock w1 + nat (sint delay)"
  then have "backoff_select c delay w1 = (CtxDone, w1\<lparr>clock := max (clock w1) t\<rparr>)"
    by (simp add: backoff_select_done)
  with a show run: "retry_loop c msg handler max_retries attempt delay err w =
      (Some (ctx_err c),
       [Invoke attempt (Some e), LogWarn attempt max_retries delay e, Wait attempt delay CtxDone],
       w1\<lparr>clock := max (clock w1) t\<rparr>)"
    by (simp add: retry_loop_abort)
  assume "attempt = 1 \<and> err = None"
  with run show "retryWithBackoff c msg handler max_retries delay w =
      (Some (ctx_err c),
       [Invoke 1 (Some e), LogWarn 1 max_retries delay e, Wait 1 delay CtxDone],
       w1\<lparr>clock := max (clock w1) t\<rparr>)"
    by (simp add: retryWithBackoff_def)
  show "invocations [Invoke 1 (Some e), LogWarn 1 max_retries delay e, Wait 1 delay CtxDone] = 1"
    by simp
next
  assume "retryWithBackoff c msg handler max_retries base_delay w = (r, evs, w') \<and>
    Wait i d CtxDone \<in> set evs"
  then have run: "retry_loop c msg handler max_retries 1 base_delay None w = (r, evs, w')"
    and mem: "Wait i d CtxDone \<in> set evs"
    by (simp_all add: retryWithBackoff_def)
  from retry_loop_interrupted [OF run mem]
  show "r = Some (ctx_err c)" "last evs = Wait i d CtxDone" "invocations evs = nat i"
    by simp_all
qed

theorem cancellation_during_backoff_aborts_witness:
  "retryWithBackoff cancelled_later test_msg permanent_handler maxRetries retryBaseDelay world0 =
     (Some Canceled,
      [Invoke 1 (Some (ErrorString ''permanent error'')),
       LogWarn 1 maxRetries retryBaseDelay (ErrorString ''permanent error''),
       Wait 1 retryBaseDelay CtxDone],
      world0\<lparr>clock := 500000000, closure := 1\<rparr>) \<and>
   last [Invoke 1 (Some (ErrorString ''permanent error'')),
         LogWarn 1 3 1000000000 (ErrorString ''permanent error''),
         Wait 1 1000000000 CtxDone] = Wait 1 1000000000 CtxDone"
proof -
  have a: "1 < maxRetries \<and>
      call_handler permanent_handler cancelled_later test_msg world0 =
        (Some (ErrorString ''permanent error''), world0\<lparr>closure := 1\<rparr>) \<and>
      done_at cancelled_later = Some 500000000 \<and>
      max (clock (world0\<lparr>closure := 1\<rparr>)) 500000000
        < clock (world0\<lparr>closure := 1\<rparr>) + nat (sint retryBaseDelay)"
    by (simp add: maxRetries_def call_handler_def permanent_handler_def world0_def
        cancelled_later_def retryBaseDelay_def Second_def)
  note t = cancellation_during_backoff_aborts [of 1 maxRetries permanent_handler cancelled_later
      test_msg world0 "ErrorString ''permanent error''" "world0\<lparr>closure := 1\<rparr>" 500000000
      retryBaseDelay None retryBaseDelay "Some Canceled"
      "[Invoke 1 (Some (ErrorString ''permanent error'')),
        LogWarn 1 3 1000000000 (ErrorString ''permanent error''),
        Wait 1 1000000000 CtxDone]"
      "world0\<lparr>clock := 500000000, closure := 1\<rparr>" 1 1000000000]
  from t a have first:
    "retryWithBackoff cancelled_later test_msg permanent_handler maxRetries retryBaseDelay world0 =
     (Some Canceled,
      [Invoke 1 (Some (ErrorString ''permanent error'')),
       LogWarn 1 maxRetries retryBaseDelay (ErrorString ''permanent error''),
       Wait 1 retryBaseDelay CtxDone],
      world0\<lparr>clock := 500000000, closure := 1\<rparr>)"
    by (simp add: cancelled_later_def world0_def)
  from t run_cancelled_later have
    "last [Invoke 1 (Some (ErrorString ''permanent error'')),
         LogWarn 1 3 1000000000 (ErrorString ''permanent error''),
         Wait 1 1000000000 CtxDone] = Wait 1 1000000000 CtxDone"
    by simp
  with first show ?thesis by simp
qed

text \<open>
  Claim C10.  Under a context that is already cancelled when \<^verbatim>\<open>retryWithBackoff\<close> is
  entered (with a maximum attempt count of at least one) the first event is still an
  invocation of the handler.  If that invocation succeeds the engine returns
  \<^verbatim>\<open>nil\<close>; if it fails, and a backoff wait with a positive delay follows (at least two
  attempts), the engine returns the context's error after this one invocation.
\<close>

theorem precancelled_context_invokes_handler_once:
  assumes "done_at c = Some t" and "t \<le> clock w"
    and "1 \<le> max_retries"
    and "call_handler handler c msg w = (x, w1)"
  shows "(\<exists>r rest w'. retryWithBackoff c msg handler max_retries base_delay w = (r, Invoke 1 x # rest, w')) \<and>
         (x = None \<longrightarrow>
            retryWithBackoff c msg handler max_retries base_delay w = (None, [Invoke 1 None], w1)) \<and>
         (\<forall>e. x = Some e \<and> 2 \<le> max_retries \<and> 0 < sint base_delay \<longrightarrow>
            retryWithBackoff c msg handler max_retries base_delay w =
              (Some (ctx_err c),
               [Invoke 1 (Some e), LogWarn 1 max_retries base_delay e, Wait 1 base_delay CtxDone], w1))"
proof (intro conjI allI impI)
  from assms(3,4) show "\<exists>r rest w'. retryWithBackoff c msg handler max_retries base_delay w = (r, Invoke 1 x # rest, w')"
    unfolding retryWithBackoff_def by (rule retry_loop_first)
next
  assume "x = None"
  with assms(3,4) show "retryWithBackoff c msg handler max_retries base_delay w = (None, [Invoke 1 None], w1)"
    by (simp add: retryWithBackoff_def retry_loop_success)
next
  fix e
  assume h: "x = Some e \<and> 2 \<le> max_retries \<and> 0 < sint base_delay"
  from assms(4) have le: "clock w \<le> clock w1" by (rule call_handler_clock)
  with assms(2) have m: "max (clock w1) t = clock w1" by simp
  with h have "max (clock w1) t < clock w1 + nat (sint base_delay)" by simp
  with assms(1) have "backoff_select c base_delay w1 = (CtxDone, w1\<lparr>clock := max (clock w1) t\<rparr>)"
    by (rule backoff_select_done)
  with m have "backoff_select c base_delay w1 = (CtxDone, w1)" by simp
  with h assms(4) show "retryWithBackoff c msg handler max_retries base_delay w =
      (Some (ctx_err c),
       [Invoke 1 (Some e), LogWarn 1 max_retries base_delay e, Wait 1 base_delay CtxDone], w1)"
    by (simp add: retryWithBackoff_def retry_loop_abort)
qed

theorem precancelled_context_invokes_handler_once_witness:
  "retryWithBackoff cancelled_ctx test_msg permanent_handler maxRetries retryBaseDelay world0 =
     (Some Canceled,
      [Invoke 1 (Some (ErrorString ''permanent error'')),
       LogWarn 1 maxRetries retryBaseDelay (ErrorString ''permanent error''),
       Wait 1 retryBaseDelay CtxDone],
      world0\<lparr>closure := 1\<rparr>) \<and>
   retryWithBackoff cancelled_ctx test_msg ok_handler maxRetries retryBaseDelay world0 =
     (None, [Invoke 1 None], world0\<lparr>closure := 1\<rparr>)"
proof -
  have a: "done_at cancelled_ctx = Some 0" by (simp add: cancelled_ctx_def)
  have b: "0 \<le> clock world0" by simp
  have c: "1 \<le> maxRetries" by (simp add: maxRetries_def)
  have d: "call_handler permanent_handler cancelled_ctx test_msg world0 =
      (Some (ErrorString ''permanent error''), world0\<lparr>closure := 1\<rparr>)"
    by (simp add: call_handler_def permanent_handler_def world0_def)
  have e: "call_handler ok_handler cancelled_ctx test_msg world0 = (None, world0\<lparr>closure := 1\<rparr>)"
    by (simp add: call_handler_def ok_handler_def world0_def)
  have f: "2 \<le> maxRetries \<and> 0 < sint retryBaseDelay"
    by (simp add: maxRetries_def retryBaseDelay_def Second_def)
  from precancelled_context_invokes_handler_once [OF a b c d, of retryBaseDelay] f
  have "retryWithBackoff cancelled_ctx test_msg permanent_handler maxRetries retryBaseDelay world0 =
     (Some Canceled,
      [Invoke 1 (Some (ErrorString ''permanent error'')),
       LogWarn 1 maxRetries retryBaseDelay (ErrorString ''permanent error''),
       Wait 1 retryBaseDelay CtxDone],
      world0\<lparr>closure := 1\<rparr>)"
    by (simp add: cancelled_ctx_def)
  moreover from precancelled_context_invokes_handler_once [OF a b c e, of retryBaseDelay]
  have "retryWithBackoff cancelled_ctx test_msg ok_handler maxRetries retryBaseDelay world0 =
     (None, [Invoke 1 None], world0\<lparr>closure := 1\<rparr>)"
    by simp
  ultimately show ?thesis by simp
qed

section \<open>The backoff schedule\<close>

text \<open>
  Claim C4.  In every run of \<^verbatim>\<open>retryWithBackoff\<close>: the first attempt takes place
  (when the maximum attempt count is at least one); after every failed attempt \<open>i\<close>
  that is not the last the engine waits, with the delay base times \<open>2 ^ (i - 1)\<close>; and
  every wait whose timer fires is followed by attempt \<open>i + 1\<close>.  Conversely every wait
  of the run follows a failed attempt \<open>i\<close> that is not the last, with that delay, in
  the arithmetic of \<^verbatim>\<open>time.Duration\<close> (and in the integers as long as the product
  stays below \<open>2 ^ 63\<close>); no wait follows a successful attempt or the final one.
  Whenever an attempt \<open>i + 1\<close> takes place, it comes right after the failed attempt
  \<open>i\<close>, its warning and a completed wait of that length.

  At any iteration whose attempt fails and is not the last, under a context that is
  never cancelled or is cancelled only after the timer fires, the loop goes on from the
  instant \<open>delay\<close> after the handler returned, with the delay doubled.

  The time slept is read off the clock.  With the handler made to note the instants at
  which each of its calls starts and ends, the run has the same result and the same
  events; there is one pair of instants for each invocation; the first call starts when
  the engine is entered; the call of attempt \<open>j + 2\<close> starts exactly the delay base
  times \<open>2 ^ j\<close> after the call of attempt \<open>j + 1\<close> ended (a delay that is not
  positive lets the timer fire at once); and unless a wait is ended by the cancellation
  of the context, the run ends at the instant the last call ends: nothing is slept after
  a successful attempt or after the final one.
\<close>

theorem backoff_delay_doubles:
  assumes "retryWithBackoff c msg handler max_retries base_delay w = (r, evs, w')"
  shows "(1 \<le> max_retries \<longrightarrow>
            (\<exists>rest. evs = Invoke 1 (fst (call_handler handler c msg w)) # rest)) \<and>
         (\<forall>i e. Invoke i (Some e) \<in> set evs \<and> i < max_retries \<longrightarrow>
            (\<exists>s. Wait i (base_delay * 2 ^ nat (i - 1)) s \<in> set evs)) \<and>
         (\<forall>i d. Wait i d TimerFired \<in> set evs \<longrightarrow> (\<exists>x. Invoke (i + 1) x \<in> set evs)) \<and>
         (\<forall>i d s. Wait i d s \<in> set evs \<longrightarrow>
            1 \<le> i \<and> i < max_retries \<and> d = base_delay * 2 ^ nat (i - 1) \<and>
            (\<exists>e. Invoke i (Some e) \<in> set evs) \<and> Invoke i None \<notin> set evs \<and>
            (0 \<le> sint base_delay \<and> sint base_delay * 2 ^ nat (i - 1) < 2 ^ 63 \<longrightarrow>
               sint d = sint base_delay * 2 ^ nat (i - 1))) \<and>
         (\<forall>i x. 1 \<le> i \<and> Invoke (i + 1) x \<in> set evs \<longrightarrow>
            (\<exists>e pre post. evs = pre @
               [Invoke i (Some e), LogWarn i max_retries (base_delay * 2 ^ nat (i - 1)) e,
                Wait i (base_delay * 2 ^ nat (i - 1)) TimerFired, Invoke (i + 1) x] @ post)) \<and>
         (\<forall>attempt delay err v e v1.
            attempt < max_retries \<and> call_handler handler c msg v = (Some e, v1) \<and>
            (done_at c = None \<or> (\<exists>t. done_at c = Some t \<and> clock v1 + nat (sint delay) < t)) \<longrightarrow>
            retry_loop c msg handler max_retries attempt delay err v =
              (case retry_loop c msg handler max_retries (attempt + 1) (delay * 2) (Some e)
                      (v1\<lparr>clock := clock v1 + nat (sint delay)\<rparr>) of
                 (r2, evs2, w3) \<Rightarrow>
                   (r2, Invoke attempt (Some e) # LogWarn attempt max_retries delay e #
                        Wait attempt delay TimerFired # evs2, w3))) \<and>
         (\<exists>stamps.
            retryWithBackoff c msg (stamped handler) max_retries base_delay (stamp [] w) =
              (r, evs, stamp stamps w') \<and>
            length stamps = invocations evs \<and>
            (stamps \<noteq> [] \<longrightarrow> fst (hd stamps) = clock w) \<and>
            (\<forall>j. Suc j < length stamps \<longrightarrow>
               fst (stamps ! Suc j) = snd (stamps ! j) + nat (sint (base_delay * 2 ^ j))) \<and>
            ((\<forall>i d. Wait i d CtxDone \<notin> set evs) \<and> stamps \<noteq> [] \<longrightarrow>
               clock w' = snd (last stamps)))"
proof -
  from assms have run: "retry_loop c msg handler max_retries 1 base_delay None w = (r, evs, w')"
    by (simp add: retryWithBackoff_def)
  have first: "1 \<le> max_retries \<longrightarrow>
      (\<exists>rest. evs = Invoke 1 (fst (call_handler handler c msg w)) # rest)"
  proof
    assume le: "1 \<le> max_retries"
    obtain x w1 where call: "call_handler handler c msg w = (x, w1)"
      by (cases "call_handler handler c msg w")
    from retry_loop_first [OF le call, of base_delay None] run call
    show "\<exists>rest. evs = Invoke 1 (fst (call_handler handler c msg w)) # rest"
      by auto
  qed
  have waits: "\<forall>i e. Invoke i (Some e) \<in> set evs \<and> i < max_retries \<longrightarrow>
      (\<exists>s. Wait i (base_delay * 2 ^ nat (i - 1)) s \<in> set evs)"
    using retry_loop_failed_waits [OF run] by blast
  have follows: "\<forall>i d. Wait i d TimerFired \<in> set evs \<longrightarrow> (\<exists>x. Invoke (i + 1) x \<in> set evs)"
    using retry_loop_wait_followed [OF run] by blast
  have labels: "\<forall>i d s. Wait i d s \<in> set evs \<longrightarrow>
      1 \<le> i \<and> i < max_retries \<and> d = base_delay * 2 ^ nat (i - 1) \<and>
      (\<exists>e. Invoke i (Some e) \<in> set evs) \<and> Invoke i None \<notin> set evs \<and>
      (0 \<le> sint base_delay \<and> sint base_delay * 2 ^ nat (i - 1) < 2 ^ 63 \<longrightarrow>
         sint d = sint base_delay * 2 ^ nat (i - 1))"
  proof (intro allI impI)
    fix i d s
    assume "Wait i d s \<in> set evs"
    from retry_loop_wait [OF run this]
    have w: "1 \<le> i \<and> i < max_retries \<and> d = base_delay * 2 ^ nat (i - 1) \<and>
      (\<exists>e. Invoke i (Some e) \<in> set evs) \<and> Invoke i None \<notin> set evs" .
    then have "0 \<le> sint base_delay \<and> sint base_delay * 2 ^ nat (i - 1) < 2 ^ 63 \<longrightarrow>
         sint d = sint base_delay * 2 ^ nat (i - 1)"
      by (simp add: sint_scaled)
    with w show "1 \<le> i \<and> i < max_retries \<and> d = base_delay * 2 ^ nat (i - 1) \<and>
      (\<exists>e. Invoke i (Some e) \<in> set evs) \<and> Invoke i None \<notin> set evs \<and>
      (0 \<le> sint base_delay \<and> sint base_delay * 2 ^ nat (i - 1) < 2 ^ 63 \<longrightarrow>
         sint d = sint base_delay * 2 ^ nat (i - 1))"
      by blast
  qed
  have order: "\<forall>i x. 1 \<le> i \<and> Invoke (i + 1) x \<in> set evs \<longrightarrow>
      (\<exists>e pre post. evs = pre @
         [Invoke i (Some e), LogWarn i max_retries (base_delay * 2 ^ nat (i - 1)) e,
          Wait i (base_delay * 2 ^ nat (i - 1)) TimerFired, Invoke (i + 1) x] @ post)"
    using retry_loop_next [OF run] by blast
  have sleep: "\<forall>attempt delay err v e v1.
      attempt < max_retries \<and> call_handler handler c msg v = (Some e, v1) \<and>
      (done_at c = None \<or> (\<exists>t. done_at c = Some t \<and> clock v1 + nat (sint delay) < t)) \<longrightarrow>
      retry_loop c msg handler max_retries attempt delay err v =
        (case retry_loop c msg handler max_retries (attempt + 1) (delay * 2) (Some e)
                (v1\<lparr>clock := clock v1 + nat (sint delay)\<rparr>) of
           (r2, evs2, w3) \<Rightarrow>
             (r2, Invoke attempt (Some e) # LogWarn attempt max_retries delay e #
                  Wait attempt delay TimerFired # evs2, w3))"
  proof (intro allI impI)
    fix attempt and delay :: duration and err v e v1
    assume a: "attempt < max_retries \<and> call_handler handler c msg v = (Some e, v1) \<and>
      (done_at c = None \<or> (\<exists>t. done_at c = Some t \<and> clock v1 + nat (sint delay) < t))"
    then have sel: "backoff_select c delay v1 =
        (TimerFired, v1\<lparr>clock := clock v1 + nat (sint delay)\<rparr>)"
      by (intro backoff_select_fires) simp
    obtain r2 evs2 w3 where rec: "retry_loop c msg handler max_retries (attempt + 1) (delay * 2)
        (Some e) (v1\<lparr>clock := clock v1 + nat (sint delay)\<rparr>) = (r2, evs2, w3)"
      by (cases "retry_loop c msg handler max_retries (attempt + 1) (delay * 2)
        (Some e) (v1\<lparr>clock := clock v1 + nat (sint delay)\<rparr>)")
    from a sel rec have "retry_loop c msg handler max_retries attempt delay err v =
        (r2, Invoke attempt (Some e) # LogWarn attempt max_retries delay e #
           Wait attempt delay TimerFired # evs2, w3)"
      by (intro retry_loop_again) simp_all
    with rec show "retry_loop c msg handler max_retries attempt delay err v =
        (case retry_loop c msg handler max_retries (attempt + 1) (delay * 2) (Some e)
                (v1\<lparr>clock := clock v1 + nat (sint delay)\<rparr>) of
           (r2, evs2, w3) \<Rightarrow>
             (r2, Invoke attempt (Some e) # LogWarn attempt max_retries delay e #
                  Wait attempt delay TimerFired # evs2, w3))"
      by simp
  qed
  from retry_loop_stamped [OF run, of "[]"]
  have clock: "\<exists>stamps.
      retryWithBackoff c msg (stamped handler) max_retries base_delay (stamp [] w) =
        (r, evs, stamp stamps w') \<and>
      length stamps = invocations evs \<and>
      (stamps \<noteq> [] \<longrightarrow> fst (hd stamps) = clock w) \<and>
      (\<forall>j. Suc j < length stamps \<longrightarrow>
         fst (stamps ! Suc j) = snd (stamps ! j) + nat (sint (base_delay * 2 ^ j))) \<and>
      ((\<forall>i d. Wait i d CtxDone \<notin> set evs) \<and> stamps \<noteq> [] \<longrightarrow>
         clock w' = snd (last stamps))"
    by (simp add: retryWithBackoff_def)
  from first waits follows labels order sleep clock show ?thesis by (intro conjI)
qed

theorem backoff_delay_doubles_witness:
  "retryWithBackoff Background test_msg (stamped permanent_handler) maxRetries retryBaseDelay
     (stamp [] world0) =
    (Some (WrapError ''events: handler failed after 3 retries: '' (ErrorString ''permanent error'')),
     [Invoke 1 (Some (ErrorString ''permanent error'')),
      LogWarn 1 3 1000000000 (ErrorString ''permanent error''),
      Wait 1 1000000000 TimerFired,
      Invoke 2 (Some (ErrorString ''permanent error'')),
      LogWarn 2 3 2000000000 (ErrorString ''permanent error''),
      Wait 2 2000000000 TimerFired,
      Invoke 3 (Some (ErrorString ''permanent error''))],
     stamp [(0, 0), (1000000000, 1000000000), (3000000000, 3000000000)]
       (world0\<lparr>clock := 3000000000, closure := 3\<rparr>)) \<and>
   (1000000000 :: nat) = 0 + nat (sint (retryBaseDelay * 2 ^ 0)) \<and>
   (3000000000 :: nat) = 1000000000 + nat (sint (retryBaseDelay * 2 ^ 1)) \<and>
   clock (world0\<lparr>clock := 3000000000, closure := 3\<rparr>) = 3000000000"
proof -
  let ?evs = "[Invoke 1 (Some (ErrorString ''permanent error'')),
      LogWarn 1 3 1000000000 (ErrorString ''permanent error''),
      Wait 1 1000000000 TimerFired,
      Invoke 2 (Some (ErrorString ''permanent error'')),
      LogWarn 2 3 2000000000 (ErrorString ''permanent error''),
      Wait 2 2000000000 TimerFired,
      Invoke 3 (Some (ErrorString ''permanent error''))]"
  from backoff_delay_doubles [OF run_permanent] obtain stamps where
    run: "retryWithBackoff Background test_msg (stamped permanent_handler) maxRetries retryBaseDelay
       (stamp [] world0) =
      (Some (WrapError ''events: handler failed after 3 retries: '' (ErrorString ''permanent error'')),
       ?evs, stamp stamps (world0\<lparr>clock := 3000000000, closure := 3\<rparr>))"
    and gaps: "\<forall>j. Suc j < length stamps \<longrightarrow>
       fst (stamps ! Suc j) = snd (stamps ! j) + nat (sint (retryBaseDelay * 2 ^ j))"
    and fin: "(\<forall>i d. Wait i d CtxDone \<notin> set ?evs) \<and> stamps \<noteq> [] \<longrightarrow>
       clock (world0\<lparr>clock := 3000000000, closure := 3\<rparr>) = snd (last stamps)"
    by blast
  from run run_permanent_stamped
  have s: "stamps = [(0, 0), (1000000000, 1000000000), (3000000000, 3000000000)]"
    by (simp add: stamp_def)
  from gaps [rule_format, of 0] gaps [rule_format, of 1] fin s run show ?thesis
    by simp
qed

section \<open>The error channel\<close>

lemma settled_append: "settled (xs @ ys) = settled xs @ settled ys"
  by (induction xs rule: settled.induct) simp_all

lemma settled_retry_events: "list_all is_retry_event evs \<Longrightarrow> settled evs = []"
  by (induction evs rule: settled.induct) simp_all

lemma retryWithBackoff_events:
  "retryWithBackoff c msg handler max_retries base_delay w = (r, evs, w') \<Longrightarrow>
   list_all is_retry_event evs"
  unfolding retryWithBackoff_def by (rule retry_loop_events)

lemma dispatch_msg_settles:
  "settled (fst (dispatch_msg P c topic handler msg st)) = [UUID msg]"
proof -
  obtain w errCh where st: "st = (w, errCh)" by (cases st)
  obtain r evs w' where run:
    "retryWithBackoff (msg_ctx P c msg) msg handler maxRetries retryBaseDelay w = (r, evs, w')"
    by (cases "retryWithBackoff (msg_ctx P c msg) msg handler maxRetries retryBaseDelay w")
  from run have "settled evs = []"
    by (intro settled_retry_events retryWithBackoff_events)
  with st run show ?thesis
    by (cases r) (simp_all add: dispatch_msg_success dispatch_msg_failure settled_append)
qed

lemma dispatch_msg_chan:
  assumes "dispatch_msg P c topic handler msg (w, errCh) = (evs, w', errCh')"
    and "length (buf errCh) \<le> cap errCh"
  shows "cap errCh' = cap errCh \<and> length (buf errCh') \<le> cap errCh'"
proof -
  obtain r revs w1 where run:
    "retryWithBackoff (msg_ctx P c msg) msg handler maxRetries retryBaseDelay w = (r, revs, w1)"
    by (cases "retryWithBackoff (msg_ctx P c msg) msg handler maxRetries retryBaseDelay w")
  with assms show ?thesis
    by (cases r) (auto simp: dispatch_msg_success dispatch_msg_failure split: if_splits)
qed

lemma dispatch_loop_settles:
  "settled (fst (dispatch_loop P c topic handler ins st)) = map UUID (delivered ins)"
proof (induction ins arbitrary: st)
  case Nil
  then show ?case by (cases st) simp
next
  case (Cons i ins)
  obtain w errCh where st: "st = (w, errCh)" by (cases st)
  show ?case
  proof (cases i)
    case (Deliver t msg)
    obtain evs st1 where d:
      "dispatch_msg P c topic handler msg (w\<lparr>clock := max (clock w) t\<rparr>, errCh) = (evs, st1)"
      by (cases "dispatch_msg P c topic handler msg (w\<lparr>clock := max (clock w) t\<rparr>, errCh)")
    obtain evs' st2 where l: "dispatch_loop P c topic handler ins st1 = (evs', st2)"
      by (cases "dispatch_loop P c topic handler ins st1")
    from dispatch_msg_settles [of P c topic handler msg "(w\<lparr>clock := max (clock w) t\<rparr>, errCh)"] d
    have "settled evs = [UUID msg]" by simp
    moreover from Cons.IH [of st1] l have "settled evs' = map UUID (delivered ins)" by simp
    ultimately show ?thesis using st Deliver d l by (simp add: settled_append)
  next
    case Recv
    with Cons.IH [of "(w, errCh\<lparr>buf := tl (buf errCh)\<rparr>)"] st show ?thesis by simp
  qed
qed

lemma dispatch_loop_chan:
  assumes "dispatch_loop P c topic handler ins (w, errCh) = (evs, w', errCh')"
    and "length (buf errCh) \<le> cap errCh"
  shows "cap errCh' = cap errCh \<and> length (buf errCh') \<le> cap errCh'"
  using assms
proof (induction ins arbitrary: w errCh evs)
  case Nil
  then show ?case by auto
next
  case (Cons i ins)
  show ?case
  proof (cases i)
    case (Deliver t msg)
    obtain evs1 w1 ch1 where d:
      "dispatch_msg P c topic handler msg (w\<lparr>clock := max (clock w) t\<rparr>, errCh) = (evs1, w1, ch1)"
      by (cases "dispatch_msg P c topic handler msg (w\<lparr>clock := max (clock w) t\<rparr>, errCh)")
    obtain evs2 where l: "dispatch_loop P c topic handler ins (w1, ch1) = (evs2, w', errCh')"
      using Cons.prems(1) Deliver d
      by (cases "dispatch_loop P c topic handler ins (w1, ch1)") auto
    from dispatch_msg_chan [OF d Cons.prems(2)] have c1: "cap ch1 = cap errCh" "length (buf ch1) \<le> cap ch1"
      by simp_all
    from Cons.IH [OF l c1(2)] c1(1) show ?thesis by simp
  next
    case Recv
    with Cons.prems(1) have l:
      "dispatch_loop P c topic handler ins (w, errCh\<lparr>buf := tl (buf errCh)\<rparr>) = (evs, w', errCh')"
      by simp
    from Cons.prems(2) have "length (buf (errCh\<lparr>buf := tl (buf errCh)\<rparr>)) \<le> cap (errCh\<lparr>buf := tl (buf errCh)\<rparr>)"
      by simp
    from Cons.IH [OF l this] show ?thesis by simp
  qed
qed

text \<open>
  Claim C6.  The channel \<^verbatim>\<open>Subscribe\<close> returns has capacity 100 and starts empty.  When
  the engine returns an error for a message while the channel is full, the dispatch loop
  Nacks the message, logs the error as dropped and leaves the channel as it is.  Whatever
  the channel held at the start and whenever its reader receives, the loop settles every
  message delivered to it, once and in order, and the channel never holds more than its
  capacity.
\<close>

theorem error_channel_full_drops_without_blocking:
  "Subscribe None topic q = Inr (make_chan 100, q\<lparr>wg := wg q + 1\<rparr>) \<and>
   cap (make_chan 100) = 100 \<and> buf (make_chan 100) = [] \<and>
   (\<forall>err evs w'.
      retryWithBackoff (msg_ctx P c msg) msg handler maxRetries retryBaseDelay w = (Some err, evs, w') \<and>
      cap errCh \<le> length (buf errCh) \<longrightarrow>
      dispatch_msg P c topic handler msg (w, errCh) =
        (evs @ [Nack (UUID msg), LogDropped err topic], w', errCh)) \<and>
   settled (fst (dispatch_loop P c topic handler ins (w, errCh))) = map UUID (delivered ins) \<and>
   (length (buf errCh) \<le> cap errCh \<longrightarrow>
      cap (snd (snd (dispatch_loop P c topic handler ins (w, errCh)))) = cap errCh \<and>
      length (buf (snd (snd (dispatch_loop P c topic handler ins (w, errCh))))) \<le> cap errCh)"
proof (intro conjI allI impI)
  show "Subscribe None topic q = Inr (make_chan 100, q\<lparr>wg := wg q + 1\<rparr>)"
    by (simp add: Subscribe_def)
  show "cap (make_chan 100) = 100" "buf (make_chan 100) = []"
    by (simp_all add: make_chan_def)
  show "settled (fst (dispatch_loop P c topic handler ins (w, errCh))) = map UUID (delivered ins)"
    by (rule dispatch_loop_settles)
next
  fix err evs w'
  assume "retryWithBackoff (msg_ctx P c msg) msg handler maxRetries retryBaseDelay w = (Some err, evs, w') \<and>
      cap errCh \<le> length (buf errCh)"
  then show "dispatch_msg P c topic handler msg (w, errCh) =
      (evs @ [Nack (UUID msg), LogDropped err topic], w', errCh)"
    by (simp add: dispatch_msg_failure)
next
  assume le: "length (buf errCh) \<le> cap errCh"
  obtain evs w' errCh' where l: "dispatch_loop P c topic handler ins (w, errCh) = (evs, w', errCh')"
    by (cases "dispatch_loop P c topic handler ins (w, errCh)")
  from dispatch_loop_chan [OF l le] l
  show "cap (snd (snd (dispatch_loop P c topic handler ins (w, errCh)))) = cap errCh"
    "length (buf (snd (snd (dispatch_loop P c topic handler ins (w, errCh))))) \<le> cap errCh"
    by simp_all
qed

theorem error_channel_full_drops_without_blocking_witness:
  "dispatch_msg noop_propagator Background ''item.created'' permanent_handler test_msg
     (world0, full_chan) =
     ([Invoke 1 (Some (ErrorString ''permanent error'')),
       LogWarn 1 3 1000000000 (ErrorString ''permanent error''),
       Wait 1 1000000000 TimerFired,
       Invoke 2 (Some (ErrorString ''permanent error'')),
       LogWarn 2 3 2000000000 (ErrorString ''permanent error''),
       Wait 2 2000000000 TimerFired,
       Invoke 3 (Some (ErrorString ''permanent error'')),
       Nack ''id'',
       LogDropped (WrapError ''events: handler failed after 3 retries: ''
         (ErrorString ''permanent error'')) ''item.created''],
      world0\<lparr>clock := 3000000000, closure := 3\<rparr>, full_chan) \<and>
   settled (fst (dispatch_loop noop_propagator Background ''item.created'' permanent_handler
     [Deliver 0 test_msg, Deliver 0 second_msg] (world0, full_chan))) = [''id'', ''id-2''] \<and>
   length (buf (snd (snd (dispatch_loop noop_propagator Background ''item.created'' permanent_handler
     [Deliver 0 test_msg, Deliver 0 second_msg] (world0, full_chan))))) \<le> 100"
proof -
  note t = error_channel_full_drops_without_blocking [of "''item.created''" plain_bus
      noop_propagator Background test_msg permanent_handler world0 full_chan
      "[Deliver 0 test_msg, Deliver 0 second_msg]"]
  have full: "cap full_chan \<le> length (buf full_chan)" "length (buf full_chan) \<le> cap full_chan"
    "cap full_chan = 100"
    by (simp_all add: full_chan_def make_chan_def)
  have u: "UUID test_msg = ''id''" "UUID second_msg = ''id-2''"
    by (simp_all add: test_msg_def second_msg_def NewMessage_def)
  from t have "\<forall>err evs w'.
      retryWithBackoff (msg_ctx noop_propagator Background test_msg) test_msg permanent_handler
        maxRetries retryBaseDelay world0 = (Some err, evs, w') \<and>
      cap full_chan \<le> length (buf full_chan) \<longrightarrow>
      dispatch_msg noop_propagator Background ''item.created'' permanent_handler test_msg
        (world0, full_chan) =
        (evs @ [Nack (UUID test_msg), LogDropped err ''item.created''], w', full_chan)"
    by blast
  from this [rule_format, OF conjI, OF _ full(1)] run_permanent
  have a: "dispatch_msg noop_propagator Background ''item.created'' permanent_handler test_msg
     (world0, full_chan) =
     ([Invoke 1 (Some (ErrorString ''permanent error'')),
       LogWarn 1 3 1000000000 (ErrorString ''permanent error''),
       Wait 1 1000000000 TimerFired,
       Invoke 2 (Some (ErrorString ''permanent error'')),
       LogWarn 2 3 2000000000 (ErrorString ''permanent error''),
       Wait 2 2000000000 TimerFired,
       Invoke 3 (Some (ErrorString ''permanent error'')),
       Nack ''id'',
       LogDropped (WrapError ''events: handler failed after 3 retries: ''
         (ErrorString ''permanent error'')) ''item.created''],
      world0\<lparr>clock := 3000000000, closure := 3\<rparr>, full_chan)"
    by (simp add: u)
  from t have b: "settled (fst (dispatch_loop noop_propagator Background ''item.created''
      permanent_handler [Deliver 0 test_msg, Deliver 0 second_msg] (world0, full_chan))) =
      [''id'', ''id-2'']"
    by (simp add: u)
  from t full have c: "length (buf (snd (snd (dispatch_loop noop_propagator Background
      ''item.created'' permanent_handler [Deliver 0 test_msg, Deliver 0 second_msg]
      (world0, full_chan))))) \<le> 100"
    by simp
  from a b c show ?thesis by simp
qed

section \<open>Shutdown\<close>

lemma started_fields [simp]:
  "useForwarder (started q) = useForwarder q"
  "fwd (started q) = Some \<lparr>ForwarderTopic = forwarderTopic, ForwarderGroup = ''forwarder-consumer''\<rparr>"
  by (simp_all add: started_def)

lemma wait_steps_cases:
  "(\<exists>t. wait_steps env = [WaitInFlight HandlersDone t] \<and> t \<le> nat (sint shutdownTimeout)) \<or>
   wait_steps env = [WaitInFlight TimedOut (nat (sint shutdownTimeout)), LogTimeout]"
  by (auto simp: wait_steps_def wait_in_flight_def Let_def split: option.splits wait_case.splits)

lemma shutdownTimeout_ns: "nat (sint shutdownTimeout) = 30000000000"
  by (simp add: shutdownTimeout_def Second_def)

text \<open>
  Claim C5, amended.  The steps \<^verbatim>\<open>Close\<close> performs are always an initial part of the
  order: close the subscriber, close the forwarder if one was started, wait for the
  in-flight handlers, close the publisher, close the database connection.  The wait takes
  at most 30 seconds; when it times out the timeout is logged and the shutdown goes on.
  When no step before the last fails, all steps are performed and the result is that of
  closing the database connection.  An error of closing the subscriber, the forwarder or
  the publisher is returned at once, wrapped with the step's name, and no later step is
  attempted.
\<close>

theorem close_stops_at_first_error:
  "prefix (snd (Close env q)) (shutdown_order env q) \<and>
   (subscriber_close env = None \<and> (fwd q \<noteq> None \<longrightarrow> forwarder_close env = None) \<and>
      publisher_close env = None \<longrightarrow>
      Close env q = (db_close env, shutdown_order env q)) \<and>
   (\<forall>e. subscriber_close env = Some e \<longrightarrow>
      Close env q = (Some (WrapError ''events: close subscriber: '' e), [CloseSubscriber])) \<and>
   (\<forall>e. subscriber_close env = None \<and> fwd q \<noteq> None \<and> forwarder_close env = Some e \<longrightarrow>
      Close env q =
        (Some (WrapError ''events: close forwarder: '' e), [CloseSubscriber, CloseForwarder])) \<and>
   (\<forall>e. subscriber_close env = None \<and> (fwd q \<noteq> None \<longrightarrow> forwarder_close env = None) \<and>
      publisher_close env = Some e \<longrightarrow>
      Close env q =
        (Some (WrapError ''events: close publisher: '' e), butlast (shutdown_order env q))) \<and>
   ((\<exists>t. wait_steps env = [WaitInFlight HandlersDone t] \<and> t \<le> 30000000000) \<or>
    wait_steps env = [WaitInFlight TimedOut 30000000000, LogTimeout])"
proof (intro conjI allI impI)
  show "prefix (snd (Close env q)) (shutdown_order env q)"
    by (auto simp: Close_def shutdown_order_def Let_def prefix_def split: option.splits)
  show "(\<exists>t. wait_steps env = [WaitInFlight HandlersDone t] \<and> t \<le> 30000000000) \<or>
    wait_steps env = [WaitInFlight TimedOut 30000000000, LogTimeout]"
    using wait_steps_cases [of env] by (simp add: shutdownTimeout_ns)
next
  assume "subscriber_close env = None \<and> (fwd q \<noteq> None \<longrightarrow> forwarder_close env = None) \<and>
      publisher_close env = None"
  then show "Close env q = (db_close env, shutdown_order env q)"
    by (auto simp: Close_def shutdown_order_def Let_def)
next
  fix e
  assume "subscriber_close env = Some e"
  then show "Close env q = (Some (WrapError ''events: close subscriber: '' e), [CloseSubscriber])"
    by (simp add: Close_def)
next
  fix e
  assume "subscriber_close env = None \<and> fwd q \<noteq> None \<and> forwarder_close env = Some e"
  then show "Close env q =
      (Some (WrapError ''events: close forwarder: '' e), [CloseSubscriber, CloseForwarder])"
    by (auto simp: Close_def)
next
  fix e
  assume "subscriber_close env = None \<and> (fwd q \<noteq> None \<longrightarrow> forwarder_close env = None) \<and>
      publisher_close env = Some e"
  then show "Close env q =
      (Some (WrapError ''events: close publisher: '' e), butlast (shutdown_order env q))"
    by (auto simp: Close_def shutdown_order_def Let_def butlast_append)
qed

theorem close_stops_at_first_error_witness:
  "Close close_ok (started forwarder_bus) =
     (None, [CloseSubscriber, CloseForwarder, WaitInFlight HandlersDone 0, ClosePublisher, CloseDB]) \<and>
   Close close_handlers_stuck (started forwarder_bus) =
     (None, [CloseSubscriber, CloseForwarder, WaitInFlight TimedOut 30000000000, LogTimeout,
             ClosePublisher, CloseDB]) \<and>
   Close close_forwarder_fails (started forwarder_bus) =
     (Some (WrapError ''events: close forwarder: '' (ErrorString ''router close timeout'')),
      [CloseSubscriber, CloseForwarder])"
proof -
  have a: "subscriber_close close_ok = None \<and>
      (fwd (started forwarder_bus) \<noteq> None \<longrightarrow> forwarder_close close_ok = None) \<and>
      publisher_close close_ok = None"
    by (simp add: close_ok_def)
  have a': "subscriber_close close_handlers_stuck = None \<and>
      (fwd (started forwarder_bus) \<noteq> None \<longrightarrow> forwarder_close close_handlers_stuck = None) \<and>
      publisher_close close_handlers_stuck = None"
    by (simp add: close_ok_def close_handlers_stuck_def)
  have b: "subscriber_close close_forwarder_fails = None \<and> fwd (started forwarder_bus) \<noteq> None \<and>
      forwarder_close close_forwarder_fails = Some (ErrorString ''router close timeout'')"
    by (simp add: close_forwarder_fails_def close_ok_def)
  have c: "shutdown_order close_ok (started forwarder_bus) =
      [CloseSubscriber, CloseForwarder, WaitInFlight HandlersDone 0, ClosePublisher, CloseDB]"
    by (simp add: shutdown_order_def wait_steps_def wait_in_flight_def close_ok_def
        shutdownTimeout_def Second_def)
  have c': "shutdown_order close_handlers_stuck (started forwarder_bus) =
      [CloseSubscriber, CloseForwarder, WaitInFlight TimedOut 30000000000, LogTimeout,
       ClosePublisher, CloseDB]"
    by (simp add: shutdown_order_def wait_steps_def wait_in_flight_def close_ok_def
        close_handlers_stuck_def shutdownTimeout_def Second_def)
  from close_stops_at_first_error [of close_ok "started forwarder_bus"] a c
  have "Close close_ok (started forwarder_bus) =
     (None, [CloseSubscriber, CloseForwarder, WaitInFlight HandlersDone 0, ClosePublisher, CloseDB])"
    by (simp add: close_ok_def)
  moreover from close_stops_at_first_error [of close_handlers_stuck "started forwarder_bus"] a' c'
  have "Close close_handlers_stuck (started forwarder_bus) =
     (None, [CloseSubscriber, CloseForwarder, WaitInFlight TimedOut 30000000000, LogTimeout,
             ClosePublisher, CloseDB])"
    by (simp add: close_ok_def close_handlers_stuck_def)
  moreover from close_stops_at_first_error [of close_forwarder_fails "started forwarder_bus"] b
  have "Close close_forwarder_fails (started forwarder_bus) =
     (Some (WrapError ''events: close forwarder: '' (ErrorString ''router close timeout'')),
      [CloseSubscriber, CloseForwarder])"
    by blast
  ultimately show ?thesis by simp
qed

text \<open>
  The claim as stated fails: on a bus whose forwarder has been started, when closing the
  forwarder returns an error, neither the publisher nor the database connection is
  closed.
\<close>

theorem close_continues_after_error_counterexample:
  "StartForwarder start_ok Background forwarder_bus =
     Some (None, start_events, started forwarder_bus) \<and>
   subscriber_close close_forwarder_fails = None \<and>
   forwarder_close close_forwarder_fails = Some (ErrorString ''router close timeout'') \<and>
   Close close_forwarder_fails (started forwarder_bus) =
     (Some (WrapError ''events: close forwarder: '' (ErrorString ''router close timeout'')),
      [CloseSubscriber, CloseForwarder]) \<and>
   ClosePublisher \<notin> set (snd (Close close_forwarder_fails (started forwarder_bus))) \<and>
   CloseDB \<notin> set (snd (Close close_forwarder_fails (started forwarder_bus)))"
proof -
  have s: "StartForwarder start_ok Background forwarder_bus =
     Some (None, start_events, started forwarder_bus)"
    by (simp add: StartForwarder_def forwarder_bus_def start_ok_def await_running_def Background_def)
  have c: "Close close_forwarder_fails (started forwarder_bus) =
     (Some (WrapError ''events: close forwarder: '' (ErrorString ''router close timeout'')),
      [CloseSubscriber, CloseForwarder])"
    by (simp add: Close_def close_forwarder_fails_def close_ok_def)
  have e: "subscriber_close close_forwarder_fails = None"
    "forwarder_close close_forwarder_fails = Some (ErrorString ''router close timeout'')"
    by (simp_all add: close_forwarder_fails_def close_ok_def)
  from s c e show ?thesis by simp
qed

section \<open>Starting the forwarder\<close>

lemma StartForwarder_other_errors:
  assumes "StartForwarder env c q = Some (Some err, evs, q1)" "useForwarder q" "fwd q = None"
  shows "Unwrap err \<noteq> None \<and>
      Error_text err \<noteq> ''events: StartForwarder called on non-forwarder EventBus'' \<and>
      Error_text err \<noteq> ''events: forwarder already started''"
proof (cases "fwd_subscriber_err env")
  case (Some e)
  with assms have "err = WrapError ''events: new forwarder subscriber: '' e"
    by (simp add: StartForwarder_def)
  then show ?thesis by simp
next
  case None
  note n1 = this
  show ?thesis
  proof (cases "target_publisher_err env")
    case (Some e)
    with assms n1 have "err = WrapError ''events: new forwarder target publisher: '' e"
      by (simp add: StartForwarder_def)
    then show ?thesis by simp
  next
    case None
    note n2 = this
    show ?thesis
    proof (cases "new_forwarder_err env")
      case (Some e)
      with assms n1 n2 have "err = WrapError ''events: create forwarder: '' e"
        by (simp add: StartForwarder_def)
      then show ?thesis by simp
    next
      case None
      with assms n1 n2 have
        "err = WrapError ''events: context cancelled waiting for forwarder: '' (ctx_err c)"
        by (cases "await_running env c")
          (auto simp: StartForwarder_def split: start_case.splits)
      then show ?thesis by simp
    qed
  qed
qed

lemma StartForwarder_started:
  assumes "StartForwarder env c q = Some (r, evs, q1)" "GoForwarderRun \<in> set evs"
  shows "useForwarder q1 \<and> fwd q1 \<noteq> None"
proof (cases "useForwarder q \<and> fwd q = None")
  case False
  with assms show ?thesis by (auto simp: StartForwarder_def split: if_splits)
next
  case True
  note t = this
  show ?thesis
  proof (cases "fwd_subscriber_err env")
    case (Some e)
    with assms t show ?thesis by (simp add: StartForwarder_def)
  next
    case None
    note n1 = this
    show ?thesis
    proof (cases "target_publisher_err env")
      case (Some e)
      with assms t n1 show ?thesis by (auto simp: StartForwarder_def)
    next
      case None
      note n2 = this
      show ?thesis
      proof (cases "new_forwarder_err env")
        case (Some e)
        with assms t n1 n2 show ?thesis by (auto simp: StartForwarder_def)
      next
        case None
        with assms t n1 n2 have "q1 = started q"
          by (cases "await_running env c")
            (auto simp: StartForwarder_def split: start_case.splits)
        with t show ?thesis by simp
      qed
    qed
  qed
qed

text \<open>
  Claim C7.  On a bus not created in forwarder mode \<^verbatim>\<open>StartForwarder\<close> returns an
  error, does nothing and leaves the bus as it is; so it does on a bus whose forwarder is
  set, which is the case of every bus left by a call that started the forwarder's
  goroutine.  Both errors are plain messages that wrap no cause; every other error of
  \<^verbatim>\<open>StartForwarder\<close> wraps its cause (a failed constructor, or the context's error)
  and has a different text.
\<close>

theorem start_forwarder_usage_errors:
  "(\<not> useForwarder q \<longrightarrow>
      StartForwarder env c q =
        Some (Some (ErrorString ''events: StartForwarder called on non-forwarder EventBus''), [], q)) \<and>
   (useForwarder q \<and> fwd q \<noteq> None \<longrightarrow>
      StartForwarder env c q = Some (Some (ErrorString ''events: forwarder already started''), [], q)) \<and>
   (\<forall>r evs q1. StartForwarder env c q = Some (r, evs, q1) \<and> GoForwarderRun \<in> set evs \<longrightarrow>
      StartForwarder env' c' q1 =
        Some (Some (ErrorString ''events: forwarder already started''), [], q1)) \<and>
   (\<forall>err evs q1. StartForwarder env c q = Some (Some err, evs, q1) \<and> useForwarder q \<and> fwd q = None \<longrightarrow>
      Unwrap err \<noteq> None \<and>
      Error_text err \<noteq> ''events: StartForwarder called on non-forwarder EventBus'' \<and>
      Error_text err \<noteq> ''events: forwarder already started'') \<and>
   Unwrap (ErrorString ''events: StartForwarder called on non-forwarder EventBus'') = None \<and>
   Unwrap (ErrorString ''events: forwarder already started'') = None"
proof (intro conjI allI impI)
  assume "\<not> useForwarder q"
  then show "StartForwarder env c q =
      Some (Some (ErrorString ''events: StartForwarder called on non-forwarder EventBus''), [], q)"
    by (simp add: StartForwarder_def)
next
  assume "useForwarder q \<and> fwd q \<noteq> None"
  then show "StartForwarder env c q =
      Some (Some (ErrorString ''events: forwarder already started''), [], q)"
    by (simp add: StartForwarder_def)
next
  fix r evs q1
  assume "StartForwarder env c q = Some (r, evs, q1) \<and> GoForwarderRun \<in> set evs"
  then have "useForwarder q1 \<and> fwd q1 \<noteq> None"
    using StartForwarder_started [of env c q r evs q1] by simp
  then show "StartForwarder env' c' q1 =
      Some (Some (ErrorString ''events: forwarder already started''), [], q1)"
    by (simp add: StartForwarder_def)
next
  fix err evs q1
  assume a: "StartForwarder env c q = Some (Some err, evs, q1) \<and> useForwarder q \<and> fwd q = None"
  then have o: "Unwrap err \<noteq> None \<and>
      Error_text err \<noteq> ''events: StartForwarder called on non-forwarder EventBus'' \<and>
      Error_text err \<noteq> ''events: forwarder already started''"
    using StartForwarder_other_errors [of env c q err evs q1] by simp
  from o show "Unwrap err \<noteq> None" by simp
  from o show "Error_text err \<noteq> ''events: StartForwarder called on non-forwarder EventBus''"
    by simp
  from o show "Error_text err \<noteq> ''events: forwarder already started''"
    by simp
qed simp_all

theorem start_forwarder_usage_errors_witness:
  "StartForwarder start_ok Background plain_bus =
     Some (Some (ErrorString ''events: StartForwarder called on non-forwarder EventBus''), [],
       plain_bus) \<and>
   StartForwarder start_ok Background forwarder_bus =
     Some (None,
       [NewFwdSubscriber ''forwarder-consumer'', NewTargetPublisher,
        NewForwarder ''_forwarder_queue'', GoForwarderRun],
       started forwarder_bus) \<and>
   StartForwarder start_ok Background (started forwarder_bus) =
     Some (Some (ErrorString ''events: forwarder already started''), [], started forwarder_bus)"
proof -
  have first: "StartForwarder start_ok Background forwarder_bus =
     Some (None,
       [NewFwdSubscriber ''forwarder-consumer'', NewTargetPublisher,
        NewForwarder ''_forwarder_queue'', GoForwarderRun],
       started forwarder_bus)"
    by (simp add: StartForwarder_def forwarder_bus_def start_ok_def await_running_def Background_def
        forwarderTopic_def start_events_def)
  have a: "\<not> useForwarder plain_bus" by (simp add: plain_bus_def)
  from start_forwarder_usage_errors [of plain_bus start_ok Background] a
  have "StartForwarder start_ok Background plain_bus =
     Some (Some (ErrorString ''events: StartForwarder called on non-forwarder EventBus''), [],
       plain_bus)"
    by blast
  moreover
  from start_forwarder_usage_errors [of forwarder_bus start_ok Background start_ok Background]
  have "\<forall>r evs q1. StartForwarder start_ok Background forwarder_bus = Some (r, evs, q1) \<and>
      GoForwarderRun \<in> set evs \<longrightarrow>
      StartForwarder start_ok Background q1 =
        Some (Some (ErrorString ''events: forwarder already started''), [], q1)"
    by blast
  from this [rule_format, OF conjI, OF first]
  have "StartForwarder start_ok Background (started forwarder_bus) =
     Some (Some (ErrorString ''events: forwarder already started''), [], started forwarder_bus)"
    by simp
  ultimately show ?thesis using first by simp
qed

section \<open>Trace context across publish and subscribe\<close>




lemma Inject_traced:
  "Inject traceparent_propagator traced_ctx fmempty =
     fmupd ''traceparent'' ''00-4bf92f3577b34da6a3ce929d0e0e4736-00f067aa0ba902b7-01'' fmempty"
  by (simp add: traceparent_propagator_def traced_ctx_def)





section \<open>Publishing in forwarder mode\<close>

lemma publisher_rows_forwarder:
  "publisher_rows (ForwarderPublisher (SQLPublisher ex) ftopic) topic (map Plain msgs) =
     map (\<lambda>m. (ex, ftopic, Envelope topic (Plain m))) msgs"
  by (simp add: comp_def)

text \<open>
  Claim C9.  On a bus built by \<^verbatim>\<open>NewEventBusWithForwarder\<close> the publisher is the
  forwarder publisher over the SQL publisher, for the topic \<^verbatim>\<open>_forwarder_queue\<close>.  A
  successful \<^verbatim>\<open>Publish\<close> to a topic adds, for each message, one row on
  \<^verbatim>\<open>_forwarder_queue\<close> holding an envelope that names the caller's topic and
  contains the message; no row is written to the caller's topic directly.  The publisher
  \<^verbatim>\<open>NewTxPublisher\<close> returns for a transaction does the same inside that
  transaction.  When the store fails, nothing is written.
\<close>

theorem forwarder_mode_publishes_envelopes:
  assumes "NewEventBusWithForwarder open_err pub_err sub_err cfg = Inr q"
  shows "publisher q = ForwarderPublisher (SQLPublisher Pool) ''_forwarder_queue'' \<and>
         publisher_Publish None (publisher q) topic msgs rows =
           (None, rows @ map (\<lambda>m. (Pool, ''_forwarder_queue'', Envelope topic (Plain m))) msgs) \<and>
         (\<forall>msgs'. set_metadata_all (Inject P c fmempty) msgs = Some msgs' \<longrightarrow>
            Publish P None c topic msgs q rows =
              Return (None, msgs',
                rows @ map (\<lambda>m. (Pool, ''_forwarder_queue'', Envelope topic (Plain m))) msgs')) \<and>
         NewTxPublisher None tx q =
           Inr (ForwarderPublisher (SQLPublisher (Tx tx)) ''_forwarder_queue'') \<and>
         publisher_Publish None (ForwarderPublisher (SQLPublisher (Tx tx)) ''_forwarder_queue'')
             topic msgs rows =
           (None, rows @ map (\<lambda>m. (Tx tx, ''_forwarder_queue'', Envelope topic (Plain m))) msgs) \<and>
         publisher_Publish (Some fault) (publisher q) topic msgs rows = (Some fault, rows)"
proof -
  from assms have p: "publisher q = ForwarderPublisher (SQLPublisher Pool) ''_forwarder_queue''"
    and u: "useForwarder q"
    by (auto simp: NewEventBusWithForwarder_def newEventBus_def Let_def forwarderTopic_def
        split: option.splits)
  from p have a: "publisher_Publish None (publisher q) topic msgs rows =
      (None, rows @ map (\<lambda>m. (Pool, ''_forwarder_queue'', Envelope topic (Plain m))) msgs)"
    by (simp add: publisher_Publish_def publisher_rows_forwarder)
  from p have b: "\<forall>msgs'. set_metadata_all (Inject P c fmempty) msgs = Some msgs' \<longrightarrow>
      Publish P None c topic msgs q rows =
        Return (None, msgs',
          rows @ map (\<lambda>m. (Pool, ''_forwarder_queue'', Envelope topic (Plain m))) msgs')"
    by (simp add: Publish_def publisher_Publish_def publisher_rows_forwarder)
  from u have c: "NewTxPublisher None tx q =
      Inr (ForwarderPublisher (SQLPublisher (Tx tx)) ''_forwarder_queue'')"
    by (simp add: NewTxPublisher_def forwarderTopic_def)
  have d: "publisher_Publish None (ForwarderPublisher (SQLPublisher (Tx tx)) ''_forwarder_queue'')
      topic msgs rows =
      (None, rows @ map (\<lambda>m. (Tx tx, ''_forwarder_queue'', Envelope topic (Plain m))) msgs)"
    by (simp add: publisher_Publish_def publisher_rows_forwarder)
  have e: "publisher_Publish (Some fault) (publisher q) topic msgs rows = (Some fault, rows)"
    by (simp add: publisher_Publish_def)
  from p a b c d e show ?thesis by blast
qed

theorem forwarder_mode_publishes_envelopes_witness:
  "NewEventBusWithForwarder None None None item_config = Inr forwarder_bus \<and>
   Publish traceparent_propagator None traced_ctx ''item.created'' [item_msg] forwarder_bus [] =
     Return (None, [published_item],
       [(Pool, ''_forwarder_queue'', Envelope ''item.created'' (Plain published_item))]) \<and>
   NewTxPublisher None 7 forwarder_bus =
     Inr (ForwarderPublisher (SQLPublisher (Tx 7)) ''_forwarder_queue'') \<and>
   publisher_Publish None (ForwarderPublisher (SQLPublisher (Tx 7)) ''_forwarder_queue'')
     ''item.created'' [item_msg] [] =
     (None, [(Tx 7, ''_forwarder_queue'', Envelope ''item.created'' (Plain item_msg))])"
proof -
  have new: "NewEventBusWithForwarder None None None item_config = Inr forwarder_bus"
    by (simp add: NewEventBusWithForwarder_def newEventBus_def forwarder_bus_def item_config_def)
  have ne: "fmupd ''traceparent'' ''00-4bf92f3577b34da6a3ce929d0e0e4736-00f067aa0ba902b7-01'' fmempty
      \<noteq> (fmempty :: carrier)"
    by (metis fmupd_lookup fmempty_lookup option.distinct(1))
  have meta: "set_metadata_all (Inject traceparent_propagator traced_ctx fmempty) [item_msg] =
      Some [published_item]"
    by (simp add: Inject_traced set_metadata_def ne item_msg_def published_item_def)
  note t = forwarder_mode_publishes_envelopes [OF new, of "''item.created''" "[item_msg]" "[]"
      traceparent_propagator traced_ctx 7]
  from t meta have "Publish traceparent_propagator None traced_ctx ''item.created'' [item_msg]
      forwarder_bus [] =
     Return (None, [published_item],
       [(Pool, ''_forwarder_queue'', Envelope ''item.created'' (Plain published_item))])"
    by simp
  moreover from t have "NewTxPublisher None 7 forwarder_bus =
     Inr (ForwarderPublisher (SQLPublisher (Tx 7)) ''_forwarder_queue'')"
    by blast
  moreover from t have "publisher_Publish None
      (ForwarderPublisher (SQLPublisher (Tx 7)) ''_forwarder_queue'') ''item.created'' [item_msg] [] =
     (None, [(Tx 7, ''_forwarder_queue'', Envelope ''item.created'' (Plain item_msg))])"
    by simp
  ultimately show ?thesis using new by simp
qed

end
